theory Spec2Isabelle
  imports Complex_Main
begin

section \<open>The interview flow control of InterviewPage.jsx\<close>

text \<open>
  The development embeds the flow control of the React component \<open>InterviewPage\<close>
  (file \<open>src/components/InterviewPage.jsx\<close>): the callbacks \<open>askQuestion\<close>,
  \<open>handleStartInterview\<close> and \<open>handleSubmitAnswer\<close>, the effect that starts the
  interview, and the post-processing of \<open>callInterviewerLlm\<close>.

  The component keeps its state in \<open>useState\<close> cells. A callback reads the cells
  through the closure of the render that created it and writes them through setters,
  whose effect is only visible to later renders. Each callback is therefore a function
  of two sessions: the snapshot \<open>c\<close> its closure reads, and the session \<open>s\<close> the
  setters have produced so far. An event is handled in the render that shows the
  session as the earlier events have left it. The three language models are external:
  their replies are inputs of the model. State that only feeds the prompts or the
  screen (the conversation, the error message, the audio queue, the \<open>last...\<close>
  refs and the question history) decides no branch and is left out.

  The callbacks are \<open>async\<close>, and the model has them twice. Whole:
  \<open>askQuestion\<close>, \<open>handleSubmitAnswer\<close>, \<open>handleStartInterview\<close> and
  \<open>planningCompleteEffect\<close> take the replies as arguments and give the session
  when every call of the chain has returned and nothing else has happened in between.
  And in the pieces between the awaits (\<open>..._call\<close> up to the await,
  \<open>..._returns\<close> from the reply on), which a run of the program interleaves with
  other events. The whole callbacks are the runs of their pieces in which the replies
  arrive before the next event (lemmas \<open>askQuestion_run\<close>,
  \<open>handleSubmitAnswer_run\<close>, \<open>takeTurns_run\<close>).
\<close>

subsection \<open>Constants\<close>

abbreviation REPEAT_QUESTION :: int where "REPEAT_QUESTION \<equiv> 1"
abbreviation CLARIFY_QUESTION :: int where "CLARIFY_QUESTION \<equiv> 2"
abbreviation NEXT_QUESTION :: int where "NEXT_QUESTION \<equiv> 3"
abbreviation NEXT_TOPIC :: int where "NEXT_TOPIC \<equiv> 4"
abbreviation END_INTERVIEW :: int where "END_INTERVIEW \<equiv> 5"

abbreviation MAX_ATTEMPTS_PLANNED :: nat where "MAX_ATTEMPTS_PLANNED \<equiv> 3"
abbreviation MAX_FOLLOW_UP_STREAK :: nat where "MAX_FOLLOW_UP_STREAK \<equiv> 3"

subsection \<open>Data\<close>

text \<open>The plan as the planner returns it: \<open>{topics: [{name, questions: [...]}]}\<close>.\<close>

record topic =
  name :: string
  questions :: "string list"

record plan =
  topics :: "topic list"

text \<open>The object stored by \<open>setPausedState\<close>.\<close>

record paused =
  topicIndex :: nat
  questionIndex :: nat
  attempts :: nat
  resumingActionCode :: int

text \<open>The monitor's JSON output. The action code is whatever integer the model wrote.\<close>

record metrics =
  accuracy :: real
  relevance :: real
  clarity :: real
  completeness :: real

record monitorOutput =
  mo_topicIndex :: int
  mo_questionIndex :: int
  mo_metrics :: metrics
  actionCode :: int
  reason :: string
  discussion_point :: "string option"

datatype responseType = planned | follow_up

text \<open>A log entry is \<open>{...monitorOutput, type}\<close>.\<close>

record logEntry =
  monitor :: monitorOutput
  entryType :: responseType

datatype phase = SETUP | PLANNING | PLANNING_COMPLETE | IN_PROGRESS | ENDED

record session =
  interviewPlan :: "plan option"
  currentTopicIndex :: nat
  currentQuestionIndex :: nat
  currentQuestionAttempts :: nat
  interviewLog :: "logEntry list"
  interviewState :: phase
  isLoading :: bool
  isFollowUpActive :: bool
  currentFollowUpQuestionText :: "string option"
  pausedState :: "paused option"
  currentFollowUpStreak :: nat

subsection \<open>Reading the plan\<close>

text \<open>
  \<open>interviewPlan?.topics[t]\<close> is truthy exactly when the plan is set and \<open>t\<close> is an
  index of its topics. \<open>interviewPlan?.topics[t]?.questions[q]\<close> is truthy exactly
  when moreover \<open>q\<close> is an index of the topic's questions and the question is not the
  empty string.
\<close>

definition hasTopic :: "plan option \<Rightarrow> nat \<Rightarrow> bool" where
  "hasTopic ip t = (case ip of None \<Rightarrow> False | Some p \<Rightarrow> t < length (topics p))"

definition hasQuestion :: "plan option \<Rightarrow> nat \<Rightarrow> nat \<Rightarrow> bool" where
  "hasQuestion ip t q =
     (case ip of
        None \<Rightarrow> False
      | Some p \<Rightarrow>
          t < length (topics p) \<and> q < length (questions (topics p ! t)) \<and>
          questions (topics p ! t) ! q \<noteq> [])"

text \<open>\<open>questions[0]\<close> inside a template literal: \<open>undefined\<close> prints as such.\<close>

definition firstQuestion :: "topic \<Rightarrow> string" where
  "firstQuestion t = (case questions t of [] \<Rightarrow> ''undefined'' | x # _ \<Rightarrow> x)"

subsection \<open>The interviewer model\<close>

text \<open>
  \<open>callOllamaApi\<close> followed by \<open>parseLlmJson\<close> with the keys \<open>type\<close> and
  \<open>text\<close> either throws or returns an object whose \<open>type\<close> and \<open>text\<close> are
  strings. \<open>callInterviewerLlm\<close> then forces the type: \<open>planned\<close> when the action is
  END_INTERVIEW, and \<open>planned\<close> for every type that is not \<open>follow-up\<close>.
\<close>

datatype interviewerReply = InterviewerRejects | InterviewerReturns string string

record interviewerOutput =
  out_type :: responseType
  out_text :: string

definition callInterviewerLlm :: "int \<Rightarrow> interviewerReply \<Rightarrow> interviewerOutput option" where
  "callInterviewerLlm code reply =
     (case reply of
        InterviewerRejects \<Rightarrow> None
      | InterviewerReturns ty txt \<Rightarrow>
          Some \<lparr>out_type =
                   (if code = END_INTERVIEW then planned
                    else if ty \<noteq> ''planned'' \<and> ty \<noteq> ''follow-up'' then planned
                    else if ty = ''follow-up'' then follow_up else planned),
                out_text = txt\<rparr>)"

subsection \<open>askQuestion\<close>

text \<open>
  The first part of \<open>askQuestion\<close> (before the \<open>try\<close>) computes six local variables
  from the plan, the position and the requested action code (the parameter
  \<open>actionCode\<close>, here \<open>code\<close>).
\<close>

record resolution =
  plannedTopicName :: string
  plannedQuestionText :: string
  effectiveActionCode :: int
  endInterview :: bool
  nextStateTopicIndex :: nat
  nextStateQuestionIndex :: nat

definition askQuestion_resolve ::
  "plan option \<Rightarrow> nat \<Rightarrow> nat \<Rightarrow> int \<Rightarrow> bool \<Rightarrow> resolution" where
  "askQuestion_resolve ip topicIdx questionIdx code forceEnd =
     (let r0 = \<lparr>plannedTopicName = ''N/A'', plannedQuestionText = ''N/A'',
                effectiveActionCode = code, endInterview = forceEnd,
                nextStateTopicIndex = topicIdx, nextStateQuestionIndex = questionIdx\<rparr>;
          r1 =
            (if forceEnd then r0\<lparr>effectiveActionCode := END_INTERVIEW\<rparr>
             else if \<not> hasTopic ip topicIdx
               then r0\<lparr>effectiveActionCode := END_INTERVIEW, endInterview := True\<rparr>
             else
               (let ts = topics (the ip); t = ts ! topicIdx in
                if questionIdx < length (questions t) then
                  r0\<lparr>plannedTopicName := name t,
                     plannedQuestionText := questions t ! questionIdx,
                     effectiveActionCode :=
                       (if code = NEXT_TOPIC then NEXT_QUESTION else code)\<rparr>
                else
                  (let nextTopicIdx = topicIdx + 1 in
                   if hasTopic ip nextTopicIdx then
                     r0\<lparr>plannedTopicName := name (ts ! nextTopicIdx),
                        plannedQuestionText := firstQuestion (ts ! nextTopicIdx),
                        effectiveActionCode := NEXT_TOPIC,
                        nextStateTopicIndex := nextTopicIdx,
                        nextStateQuestionIndex := 0\<rparr>
                   else
                     r0\<lparr>plannedTopicName := name t,
                        effectiveActionCode := END_INTERVIEW,
                        endInterview := True\<rparr>)))
      in if effectiveActionCode r1 = END_INTERVIEW
         then r1\<lparr>plannedTopicName := ''Interview Conclusion'',
                 plannedQuestionText := ''Provide closing statement.''\<rparr>
         else r1)"

text \<open>The topics of the plan, none while the plan is not set.\<close>

definition planTopics :: "plan option \<Rightarrow> topic list" where
  "planTopics ip = (case ip of None \<Rightarrow> [] | Some p \<Rightarrow> topics p)"

text \<open>
  The rest of \<open>askQuestion\<close>, with its calls run to their end one after the other.
  \<open>llm i\<close> is the reply to the \<open>i\<close>-th interviewer call. A rejected call is
  caught and ends the interview. The recursive call runs in the same closure \<open>c\<close>:
  it still reads the streak and the attempts of the render that created the callback.
  (It is not awaited; what the session is while it is in flight is in the section on
  calls in flight.) The call for the closing statement in the branch that meets the
  end of the plan only writes to the conversation. Each recursive call is at a later
  position of the plan (a later question of the same topic, or a later topic), which
  is the termination argument.
\<close>

function askQuestion ::
  "session \<Rightarrow> session \<Rightarrow> nat \<Rightarrow> nat \<Rightarrow> int \<Rightarrow> bool \<Rightarrow> (nat \<Rightarrow> interviewerReply) \<Rightarrow> nat \<Rightarrow> session"
  where
  "askQuestion c s topicIdx questionIdx code forceEnd llm i =
     (let r = askQuestion_resolve (interviewPlan c) topicIdx questionIdx code forceEnd in
      case callInterviewerLlm (effectiveActionCode r) (llm i) of
        None \<Rightarrow> s\<lparr>interviewState := ENDED, isLoading := False\<rparr>
      | Some out \<Rightarrow>
          if out_type out = follow_up \<and> effectiveActionCode r \<noteq> END_INTERVIEW then
            if currentFollowUpStreak c < MAX_FOLLOW_UP_STREAK then
              s\<lparr>currentFollowUpStreak := currentFollowUpStreak s + 1,
                pausedState := Some \<lparr>topicIndex = topicIdx, questionIndex = questionIdx,
                                     attempts = currentQuestionAttempts c,
                                     resumingActionCode = effectiveActionCode r\<rparr>,
                isFollowUpActive := True,
                currentFollowUpQuestionText := Some (out_text out),
                isLoading := False\<rparr>
            else
              (let s' = s\<lparr>isFollowUpActive := False, currentFollowUpQuestionText := None,
                          pausedState := None, currentFollowUpStreak := 0\<rparr> in
               if hasQuestion (interviewPlan c) topicIdx (questionIdx + 1) then
                 askQuestion c
                   (s'\<lparr>currentTopicIndex := topicIdx, currentQuestionIndex := questionIdx + 1\<rparr>)
                   topicIdx (questionIdx + 1) NEXT_QUESTION False llm (Suc i)
               else if hasTopic (interviewPlan c) (topicIdx + 1) then
                 askQuestion c
                   (s'\<lparr>currentTopicIndex := topicIdx + 1, currentQuestionIndex := 0\<rparr>)
                   (topicIdx + 1) 0 NEXT_TOPIC False llm (Suc i)
               else s'\<lparr>interviewState := ENDED, isLoading := False\<rparr>)
          else
            (let s1 = s\<lparr>currentFollowUpStreak := 0, isFollowUpActive := False,
                        currentFollowUpQuestionText := None, pausedState := None\<rparr>;
                 s2 = (if effectiveActionCode r = NEXT_QUESTION \<or> effectiveActionCode r = NEXT_TOPIC
                       then s1\<lparr>currentQuestionAttempts := 0\<rparr> else s1);
                 s3 = (if endInterview r \<or> effectiveActionCode r = END_INTERVIEW
                       then s2\<lparr>interviewState := ENDED\<rparr>
                       else s2\<lparr>currentTopicIndex := nextStateTopicIndex r,
                               currentQuestionIndex := nextStateQuestionIndex r\<rparr>)
             in s3\<lparr>isLoading := False\<rparr>))"
  by pat_completeness auto

termination askQuestion
  by (relation "measures
        [\<lambda>(c, s, t, q, a, fe, llm, i). length (planTopics (interviewPlan c)) - t,
         \<lambda>(c, s, t, q, a, fe, llm, i). length (questions (planTopics (interviewPlan c) ! t)) - q]")
     (auto simp: hasQuestion_def hasTopic_def planTopics_def split: option.splits)

declare askQuestion.simps [simp del]

subsection \<open>handleSubmitAnswer\<close>

text \<open>
  The answer is read from three state cells that the input field, the speech
  recogniser and the code editor fill. What the candidate enters is a JavaScript
  string: a sequence of UTF-16 code units, each given here by its number.
  \<open>String.prototype.trim\<close> removes the code units of white space and of line
  terminators at both ends: TAB, LF, VT, FF, CR, SPACE, NO-BREAK SPACE, the other
  space separators of Unicode (U+1680, U+2000 to U+200A, U+202F, U+205F, U+3000),
  LINE SEPARATOR, PARAGRAPH SEPARATOR and the byte order mark U+FEFF.
\<close>

type_synonym jsString = "nat list"

record answer =
  finalTranscript :: jsString
  candidateInput :: jsString
  codeContent :: jsString

definition isSpace :: "nat \<Rightarrow> bool" where
  "isSpace u =
     (u \<in> set [0x09, 0x0A, 0x0B, 0x0C, 0x0D, 0x20, 0xA0, 0x1680, 0x2028, 0x2029,
               0x202F, 0x205F, 0x3000, 0xFEFF] \<or>
      (0x2000 \<le> u \<and> u \<le> 0x200A))"

definition trim :: "jsString \<Rightarrow> jsString" where
  "trim xs = rev (dropWhile isSpace (rev (dropWhile isSpace xs)))"

text \<open>The code units of a text written in ASCII.\<close>

definition utf16 :: "string \<Rightarrow> jsString" where
  "utf16 xs = map of_char xs"

text \<open>\<open>callMonitorLlm\<close> either throws or returns the parsed JSON object.\<close>

datatype monitorReply = MonitorRejects | MonitorReturns monitorOutput

text \<open>
  The position the answer is attributed to: the paused position during a follow-up,
  else the current position if the plan has a question there, else none (the
  "Critical Error" branch).
\<close>

definition answerContext :: "session \<Rightarrow> (nat \<times> nat) option" where
  "answerContext s =
     (case (if isFollowUpActive s then pausedState s else None) of
        Some p \<Rightarrow> Some (topicIndex p, questionIndex p)
      | None \<Rightarrow>
          if hasQuestion (interviewPlan s) (currentTopicIndex s) (currentQuestionIndex s)
          then Some (currentTopicIndex s, currentQuestionIndex s)
          else None)"

text \<open>
  The callback reads the session \<open>s\<close> of the render it was created in and calls the
  \<open>askQuestion\<close> of that render. \<open>isFollowUpActive && pausedState\<close> is the first
  \<open>case\<close> of the branch on the monitor's output; the other one is the planned path
  with the attempt limit and the \<open>switch\<close> on the action code.
\<close>

definition handleSubmitAnswer ::
  "session \<Rightarrow> answer \<Rightarrow> monitorReply \<Rightarrow> (nat \<Rightarrow> interviewerReply) \<Rightarrow> session" where
  "handleSubmitAnswer s a mon llm =
     (let textAnswer = trim (if finalTranscript a \<noteq> [] then finalTranscript a else candidateInput a);
          codeToSend = trim (codeContent a)
      in
      if (textAnswer = [] \<and> codeToSend = []) \<or> isLoading s \<or> interviewState s \<noteq> IN_PROGRESS
      then s
      else
        (let s0 = s\<lparr>isLoading := True\<rparr> in
         case answerContext s of
           None \<Rightarrow> s0\<lparr>isLoading := False, interviewState := ENDED\<rparr>
         | Some ctx \<Rightarrow>
             (case mon of
                MonitorRejects \<Rightarrow> s0\<lparr>isLoading := False, interviewState := ENDED\<rparr>
              | MonitorReturns monitorOutput \<Rightarrow>
                  (let s1 = s0\<lparr>interviewLog := interviewLog s0 @
                               [\<lparr>monitor = monitorOutput,
                                 entryType = (if isFollowUpActive s then follow_up else planned)\<rparr>]\<rparr>
                   in
                   case (if isFollowUpActive s then pausedState s else None) of
                     Some p \<Rightarrow>
                       (let resumeTopicIdx = topicIndex p;
                            resumeQuestionIdx = questionIndex p;
                            s2 = s1\<lparr>isFollowUpActive := False,
                                    currentFollowUpQuestionText := None,
                                    pausedState := None\<rparr>
                        in
                        if hasQuestion (interviewPlan s) resumeTopicIdx (resumeQuestionIdx + 1) then
                          askQuestion s s2 resumeTopicIdx (resumeQuestionIdx + 1) NEXT_QUESTION False llm 0
                        else if hasTopic (interviewPlan s) (resumeTopicIdx + 1) then
                          askQuestion s s2 (resumeTopicIdx + 1) 0 NEXT_TOPIC False llm 0
                        else
                          askQuestion s s2 (resumeTopicIdx + 1) 0 END_INTERVIEW False llm 0)
                   | None \<Rightarrow>
                       (let requested = actionCode monitorOutput;
                            retry = (requested = REPEAT_QUESTION \<or> requested = CLARIFY_QUESTION);
                            currentAttempts =
                              (if retry then currentQuestionAttempts s + 1
                               else currentQuestionAttempts s);
                            s2 = (if retry then s1\<lparr>currentQuestionAttempts := currentAttempts\<rparr>
                                  else s1);
                            nextActionCode =
                              (if retry \<and> currentAttempts \<ge> MAX_ATTEMPTS_PLANNED
                               then NEXT_QUESTION else requested)
                        in
                        if nextActionCode = REPEAT_QUESTION \<or> nextActionCode = CLARIFY_QUESTION then
                          askQuestion s s2 (currentTopicIndex s) (currentQuestionIndex s)
                            nextActionCode False llm 0
                        else if nextActionCode = NEXT_QUESTION then
                          askQuestion s s2 (currentTopicIndex s) (currentQuestionIndex s + 1)
                            nextActionCode False llm 0
                        else if nextActionCode = NEXT_TOPIC then
                          askQuestion s s2 (currentTopicIndex s + 1) 0 nextActionCode False llm 0
                        else
                          askQuestion s s2 (currentTopicIndex s) (currentQuestionIndex s)
                            END_INTERVIEW False llm 0)))))"

subsection \<open>Starting the interview\<close>

text \<open>The initial values of the \<open>useState\<close> cells.\<close>

definition initialState :: session where
  "initialState =
     \<lparr>interviewPlan = None, currentTopicIndex = 0, currentQuestionIndex = 0,
      currentQuestionAttempts = 0, interviewLog = [], interviewState = SETUP,
      isLoading = False, isFollowUpActive = False, currentFollowUpQuestionText = None,
      pausedState = None, currentFollowUpStreak = 0\<rparr>"

text \<open>
  \<open>callPlannerLlm\<close> throws or returns an object with topics; \<open>handleStartInterview\<close>
  accepts it when there is a topic and every topic has a name and a question.
\<close>

datatype plannerReply = PlannerRejects | PlannerReturns plan

definition planAccepted :: "plan \<Rightarrow> bool" where
  "planAccepted p =
     (topics p \<noteq> [] \<and> list_all (\<lambda>t. name t \<noteq> [] \<and> questions t \<noteq> []) (topics p))"

definition handleStartInterview :: "session \<Rightarrow> jsString \<Rightarrow> plannerReply \<Rightarrow> session" where
  "handleStartInterview s description reply =
     (if description = [] \<or> trim description = [] then s
      else
        (let s0 = s\<lparr>isLoading := True, interviewState := PLANNING, interviewLog := [],
                    currentTopicIndex := 0, currentQuestionIndex := 0,
                    currentQuestionAttempts := 0, isFollowUpActive := False,
                    currentFollowUpQuestionText := None, pausedState := None,
                    currentFollowUpStreak := 0, interviewPlan := None\<rparr>;
             failed = s0\<lparr>interviewState := SETUP, isLoading := False\<rparr>
         in
         case reply of
           PlannerRejects \<Rightarrow> failed
         | PlannerReturns p \<Rightarrow>
             if \<not> planAccepted p then failed
             else s0\<lparr>interviewPlan := Some p, interviewState := PLANNING_COMPLETE\<rparr>))"

text \<open>The effect that runs when the state is PLANNING_COMPLETE and the plan is set.\<close>

definition planningCompleteEffect :: "session \<Rightarrow> (nat \<Rightarrow> interviewerReply) \<Rightarrow> session" where
  "planningCompleteEffect s llm =
     (if interviewState s = PLANNING_COMPLETE \<and> interviewPlan s \<noteq> None then
        askQuestion s
          (s\<lparr>interviewState := IN_PROGRESS, currentTopicIndex := 0, currentQuestionIndex := 0,
             currentQuestionAttempts := 0, isFollowUpActive := False,
             currentFollowUpQuestionText := None, pausedState := None,
             currentFollowUpStreak := 0\<rparr>)
          0 0 NEXT_QUESTION False llm 0
      else s)"

subsection \<open>Calls in flight\<close>

text \<open>
  The callbacks are \<open>async\<close> functions. Each runs until it awaits a language
  model, returns to the event loop, and continues when the reply is there; in between
  the component renders and handles whatever else happens. A call in flight carries
  what its continuation reads: the closure \<open>c\<close> of the render in which the
  callback was created, and for \<open>askQuestion\<close> its arguments. The setters of the
  continuation act on the session as it is when the reply arrives.

  \<open>handleSubmitAnswer\<close> does not await \<open>askQuestion\<close>, and \<open>askQuestion\<close>
  does not await its recursive call: the callee runs up to its own await of the
  interviewer, and the caller goes on. In the branch that ignores a follow-up at the
  streak limit the caller then returns through \<open>finally\<close>, which clears
  \<open>isLoading\<close> while the forced call is still in flight.

  When \<open>askQuestion\<close> ends the interview it has set ENDED before it awaits the
  closing statement (in the branch that meets the end of the plan at the streak limit)
  or the speech for the fallback closing statement (in the planned branch), and clears
  \<open>isLoading\<close> afterwards; the await of the speech takes no time when nothing is
  spoken. The speech awaited right after the interviewer's reply precedes every setter
  of a modelled cell and is part of the awaited reply.
\<close>

datatype call =
    PlannerCall
  | MonitorCall session
  | InterviewerCall session nat nat int bool
  | ClosingCall

text \<open>\<open>askQuestion\<close> up to the await of \<open>callInterviewerLlm\<close>.\<close>

definition askQuestion_call ::
  "session \<Rightarrow> session \<Rightarrow> nat \<Rightarrow> nat \<Rightarrow> int \<Rightarrow> bool \<Rightarrow> session \<times> call list" where
  "askQuestion_call c s topicIdx questionIdx code forceEnd =
     (s\<lparr>isLoading := True\<rparr>, [InterviewerCall c topicIdx questionIdx code forceEnd])"

text \<open>
  \<open>askQuestion\<close> from the reply of the interviewer on: the session it leaves and the
  calls it leaves in flight.
\<close>

definition askQuestion_returns ::
  "session \<Rightarrow> session \<Rightarrow> nat \<Rightarrow> nat \<Rightarrow> int \<Rightarrow> bool \<Rightarrow> interviewerReply \<Rightarrow> session \<times> call list"
  where
  "askQuestion_returns c s topicIdx questionIdx code forceEnd reply =
     (let r = askQuestion_resolve (interviewPlan c) topicIdx questionIdx code forceEnd in
      case callInterviewerLlm (effectiveActionCode r) reply of
        None \<Rightarrow> (s\<lparr>interviewState := ENDED, isLoading := False\<rparr>, [])
      | Some out \<Rightarrow>
          if out_type out = follow_up \<and> effectiveActionCode r \<noteq> END_INTERVIEW then
            if currentFollowUpStreak c < MAX_FOLLOW_UP_STREAK then
              (s\<lparr>currentFollowUpStreak := currentFollowUpStreak s + 1,
                 pausedState := Some \<lparr>topicIndex = topicIdx, questionIndex = questionIdx,
                                      attempts = currentQuestionAttempts c,
                                      resumingActionCode = effectiveActionCode r\<rparr>,
                 isFollowUpActive := True,
                 currentFollowUpQuestionText := Some (out_text out),
                 isLoading := False\<rparr>, [])
            else
              (let s' = s\<lparr>isFollowUpActive := False, currentFollowUpQuestionText := None,
                          pausedState := None, currentFollowUpStreak := 0\<rparr> in
               if hasQuestion (interviewPlan c) topicIdx (questionIdx + 1) then
                 (let (s'', calls) =
                        askQuestion_call c
                          (s'\<lparr>currentTopicIndex := topicIdx,
                              currentQuestionIndex := questionIdx + 1\<rparr>)
                          topicIdx (questionIdx + 1) NEXT_QUESTION False
                  in (s''\<lparr>isLoading := False\<rparr>, calls))
               else if hasTopic (interviewPlan c) (topicIdx + 1) then
                 (let (s'', calls) =
                        askQuestion_call c
                          (s'\<lparr>currentTopicIndex := topicIdx + 1, currentQuestionIndex := 0\<rparr>)
                          (topicIdx + 1) 0 NEXT_TOPIC False
                  in (s''\<lparr>isLoading := False\<rparr>, calls))
               else (s'\<lparr>interviewState := ENDED\<rparr>, [ClosingCall]))
          else
            (let s1 = s\<lparr>currentFollowUpStreak := 0, isFollowUpActive := False,
                        currentFollowUpQuestionText := None, pausedState := None\<rparr>;
                 s2 = (if effectiveActionCode r = NEXT_QUESTION \<or> effectiveActionCode r = NEXT_TOPIC
                       then s1\<lparr>currentQuestionAttempts := 0\<rparr> else s1)
             in
             if endInterview r \<or> effectiveActionCode r = END_INTERVIEW
             then (s2\<lparr>interviewState := ENDED\<rparr>, [ClosingCall])
             else (s2\<lparr>currentTopicIndex := nextStateTopicIndex r,
                      currentQuestionIndex := nextStateQuestionIndex r,
                      isLoading := False\<rparr>, [])))"

text \<open>
  \<open>handleSubmitAnswer\<close> up to the await of \<open>callMonitorLlm\<close>. The closure is
  the session of the render in which the candidate submits.
\<close>

definition handleSubmitAnswer_call :: "session \<Rightarrow> answer \<Rightarrow> session \<times> call list" where
  "handleSubmitAnswer_call s a =
     (let textAnswer = trim (if finalTranscript a \<noteq> [] then finalTranscript a else candidateInput a);
          codeToSend = trim (codeContent a)
      in
      if (textAnswer = [] \<and> codeToSend = []) \<or> isLoading s \<or> interviewState s \<noteq> IN_PROGRESS
      then (s, [])
      else
        (case answerContext s of
           None \<Rightarrow> (s\<lparr>isLoading := False, interviewState := ENDED\<rparr>, [])
         | Some ctx \<Rightarrow> (s\<lparr>isLoading := True\<rparr>, [MonitorCall s])))"

text \<open>\<open>handleSubmitAnswer\<close> from the reply of the monitor on.\<close>

definition handleSubmitAnswer_returns ::
  "session \<Rightarrow> session \<Rightarrow> monitorReply \<Rightarrow> session \<times> call list" where
  "handleSubmitAnswer_returns c s mon =
     (case mon of
        MonitorRejects \<Rightarrow> (s\<lparr>isLoading := False, interviewState := ENDED\<rparr>, [])
      | MonitorReturns monitorOutput \<Rightarrow>
          (let s1 = s\<lparr>interviewLog := interviewLog s @
                       [\<lparr>monitor = monitorOutput,
                         entryType = (if isFollowUpActive c then follow_up else planned)\<rparr>]\<rparr>
           in
           case (if isFollowUpActive c then pausedState c else None) of
             Some p \<Rightarrow>
               (let resumeTopicIdx = topicIndex p;
                    resumeQuestionIdx = questionIndex p;
                    s2 = s1\<lparr>isFollowUpActive := False,
                            currentFollowUpQuestionText := None,
                            pausedState := None\<rparr>
                in
                if hasQuestion (interviewPlan c) resumeTopicIdx (resumeQuestionIdx + 1) then
                  askQuestion_call c s2 resumeTopicIdx (resumeQuestionIdx + 1) NEXT_QUESTION False
                else if hasTopic (interviewPlan c) (resumeTopicIdx + 1) then
                  askQuestion_call c s2 (resumeTopicIdx + 1) 0 NEXT_TOPIC False
                else
                  askQuestion_call c s2 (resumeTopicIdx + 1) 0 END_INTERVIEW False)
           | None \<Rightarrow>
               (let requested = actionCode monitorOutput;
                    retry = (requested = REPEAT_QUESTION \<or> requested = CLARIFY_QUESTION);
                    currentAttempts =
                      (if retry then currentQuestionAttempts c + 1
                       else currentQuestionAttempts c);
                    s2 = (if retry then s1\<lparr>currentQuestionAttempts := currentAttempts\<rparr>
                          else s1);
                    nextActionCode =
                      (if retry \<and> currentAttempts \<ge> MAX_ATTEMPTS_PLANNED
                       then NEXT_QUESTION else requested)
                in
                if nextActionCode = REPEAT_QUESTION \<or> nextActionCode = CLARIFY_QUESTION then
                  askQuestion_call c s2 (currentTopicIndex c) (currentQuestionIndex c)
                    nextActionCode False
                else if nextActionCode = NEXT_QUESTION then
                  askQuestion_call c s2 (currentTopicIndex c) (currentQuestionIndex c + 1)
                    nextActionCode False
                else if nextActionCode = NEXT_TOPIC then
                  askQuestion_call c s2 (currentTopicIndex c + 1) 0 nextActionCode False
                else
                  askQuestion_call c s2 (currentTopicIndex c) (currentQuestionIndex c)
                    END_INTERVIEW False)))"

text \<open>\<open>handleStartInterview\<close> up to the await of the planner, and from its reply on.\<close>

definition handleStartInterview_call :: "session \<Rightarrow> jsString \<Rightarrow> session \<times> call list" where
  "handleStartInterview_call s description =
     (if description = [] \<or> trim description = [] then (s, [])
      else
        (s\<lparr>isLoading := True, interviewState := PLANNING, interviewLog := [],
           currentTopicIndex := 0, currentQuestionIndex := 0,
           currentQuestionAttempts := 0, isFollowUpActive := False,
           currentFollowUpQuestionText := None, pausedState := None,
           currentFollowUpStreak := 0, interviewPlan := None\<rparr>, [PlannerCall]))"

definition handleStartInterview_returns :: "session \<Rightarrow> plannerReply \<Rightarrow> session" where
  "handleStartInterview_returns s reply =
     (let failed = s\<lparr>interviewState := SETUP, isLoading := False\<rparr> in
      case reply of
        PlannerRejects \<Rightarrow> failed
      | PlannerReturns p \<Rightarrow>
          if \<not> planAccepted p then failed
          else s\<lparr>interviewPlan := Some p, interviewState := PLANNING_COMPLETE\<rparr>)"

text \<open>The effect, up to the await inside its call of \<open>askQuestion\<close>.\<close>

definition planningCompleteEffect_call :: "session \<Rightarrow> session \<times> call list" where
  "planningCompleteEffect_call s =
     (if interviewState s = PLANNING_COMPLETE \<and> interviewPlan s \<noteq> None then
        askQuestion_call s
          (s\<lparr>interviewState := IN_PROGRESS, currentTopicIndex := 0, currentQuestionIndex := 0,
             currentQuestionAttempts := 0, isFollowUpActive := False,
             currentFollowUpQuestionText := None, pausedState := None,
             currentFollowUpStreak := 0\<rparr>)
          0 0 NEXT_QUESTION False
      else (s, []))"

subsection \<open>Runs\<close>

text \<open>
  The state of the program is the session together with the calls in flight. An event
  is a start of the interview, the effect after planning, a submission of the
  candidate, or the return of the \<open>k\<close>-th call in flight with a reply. A reply of
  the wrong kind, or to a call that is not there, is no event of the program and
  changes nothing. The effect runs after the render that shows PLANNING_COMPLETE with
  the plan set, in the closure of that render; in any other session it does nothing.
\<close>

datatype reply =
    PlannerReplies plannerReply
  | MonitorReplies monitorReply
  | InterviewerReplies interviewerReply
  | ClosingDone

datatype event =
    StartInterview jsString
  | PlanningComplete
  | SubmitAnswer answer
  | Returns nat reply

fun returned :: "call \<Rightarrow> session \<Rightarrow> reply \<Rightarrow> (session \<times> call list) option" where
  "returned PlannerCall s (PlannerReplies r) = Some (handleStartInterview_returns s r, [])"
| "returned (MonitorCall c) s (MonitorReplies r) = Some (handleSubmitAnswer_returns c s r)"
| "returned (InterviewerCall c t q code fe) s (InterviewerReplies r) =
     Some (askQuestion_returns c s t q code fe r)"
| "returned ClosingCall s ClosingDone = Some (s\<lparr>isLoading := False\<rparr>, [])"
| "returned _ _ _ = None"

fun step :: "session \<times> call list \<Rightarrow> event \<Rightarrow> session \<times> call list" where
  "step (s, calls) (StartInterview description) =
     (let (s', new) = handleStartInterview_call s description in (s', calls @ new))"
| "step (s, calls) PlanningComplete =
     (let (s', new) = planningCompleteEffect_call s in (s', calls @ new))"
| "step (s, calls) (SubmitAnswer a) =
     (let (s', new) = handleSubmitAnswer_call s a in (s', calls @ new))"
| "step (s, calls) (Returns k reply) =
     (if k < length calls then
        (case returned (calls ! k) s reply of
           None \<Rightarrow> (s, calls)
         | Some (s', new) \<Rightarrow> (s', take k calls @ drop (Suc k) calls @ new))
      else (s, calls))"

fun run :: "session \<times> call list \<Rightarrow> event list \<Rightarrow> session \<times> call list" where
  "run sys [] = sys"
| "run sys (e # es) = run (step sys e) es"

text \<open>
  A run is serial when every event that starts a chain of calls (a start, the effect, a
  submission) happens while no call is in flight.
\<close>

fun startsChain :: "event \<Rightarrow> bool" where
  "startsChain (Returns k reply) = False"
| "startsChain _ = True"

fun serial :: "session \<times> call list \<Rightarrow> event list \<Rightarrow> bool" where
  "serial sys [] = True"
| "serial sys (e # es) = ((startsChain e \<longrightarrow> snd sys = []) \<and> serial (step sys e) es)"

subsection \<open>Turns completed one after the other\<close>

text \<open>
  A turn is an event that starts a chain together with the replies its calls receive.
  \<open>takeTurn\<close> is the session when the chain has come to its end with nothing else in
  between: \<open>handleStartInterview\<close>, \<open>planningCompleteEffect\<close> and
  \<open>handleSubmitAnswer\<close> above, with \<open>askQuestion\<close> run through its recursive
  calls. Such turns are runs of the program: the serial ones in which every call
  returns before the next event (lemma \<open>takeTurns_run\<close>).
\<close>

datatype turn =
    StartTurn jsString plannerReply
  | OpeningTurn "nat \<Rightarrow> interviewerReply"
  | AnswerTurn answer monitorReply "nat \<Rightarrow> interviewerReply"

fun takeTurn :: "session \<Rightarrow> turn \<Rightarrow> session" where
  "takeTurn s (StartTurn description reply) = handleStartInterview s description reply"
| "takeTurn s (OpeningTurn llm) = planningCompleteEffect s llm"
| "takeTurn s (AnswerTurn a mon llm) = handleSubmitAnswer s a mon llm"

fun takeTurns :: "session \<Rightarrow> turn list \<Rightarrow> session" where
  "takeTurns s [] = s"
| "takeTurns s (e # es) = takeTurns (takeTurn s e) es"

text \<open>
  The event that starts a turn, and the first \<open>n\<close> replies of the interviewer from
  the \<open>i\<close>-th on, each returned to the only call in flight.
\<close>

fun turnEvent :: "turn \<Rightarrow> event" where
  "turnEvent (StartTurn description reply) = StartInterview description"
| "turnEvent (OpeningTurn llm) = PlanningComplete"
| "turnEvent (AnswerTurn a mon llm) = SubmitAnswer a"

definition interviewerReturns :: "(nat \<Rightarrow> interviewerReply) \<Rightarrow> nat \<Rightarrow> nat \<Rightarrow> event list" where
  "interviewerReturns llm i n = map (\<lambda>j. Returns 0 (InterviewerReplies (llm (i + j)))) [0..<n]"

subsection \<open>Derived notions used in the statements\<close>

text \<open>The submission is not skipped for want of input.\<close>

definition answerGiven :: "answer \<Rightarrow> bool" where
  "answerGiven a =
     (trim (if finalTranscript a \<noteq> [] then finalTranscript a else candidateInput a) \<noteq> [] \<or>
      trim (codeContent a) \<noteq> [])"

text \<open>The session after \<open>setIsLoading(true)\<close> and the append to the log.\<close>

definition logged :: "session \<Rightarrow> monitorOutput \<Rightarrow> session" where
  "logged s m =
     s\<lparr>isLoading := True,
       interviewLog := interviewLog s @
         [\<lparr>monitor = m, entryType = (if isFollowUpActive s then follow_up else planned)\<rparr>]\<rparr>"

text \<open>The last branch of \<open>askQuestion\<close>: the interviewer carried out the planned action.\<close>

definition plannedOutcome :: "resolution \<Rightarrow> session \<Rightarrow> session" where
  "plannedOutcome r s =
     (let s1 = s\<lparr>currentFollowUpStreak := 0, isFollowUpActive := False,
                 currentFollowUpQuestionText := None, pausedState := None\<rparr>;
          s2 = (if effectiveActionCode r = NEXT_QUESTION \<or> effectiveActionCode r = NEXT_TOPIC
                then s1\<lparr>currentQuestionAttempts := 0\<rparr> else s1);
          s3 = (if endInterview r \<or> effectiveActionCode r = END_INTERVIEW
                then s2\<lparr>interviewState := ENDED\<rparr>
                else s2\<lparr>currentTopicIndex := nextStateTopicIndex r,
                        currentQuestionIndex := nextStateQuestionIndex r\<rparr>)
      in s3\<lparr>isLoading := False\<rparr>)"



text \<open>
  The session waits for the answer to the planned question at \<open>(t, q)\<close>, with
  \<open>n\<close> attempts counted.
\<close>

definition awaiting :: "session \<Rightarrow> nat \<Rightarrow> nat \<Rightarrow> nat \<Rightarrow> bool" where
  "awaiting s t q n =
     (interviewState s = IN_PROGRESS \<and> \<not> isLoading s \<and> \<not> isFollowUpActive s \<and>
      currentTopicIndex s = t \<and> currentQuestionIndex s = q \<and> currentQuestionAttempts s = n \<and>
      hasQuestion (interviewPlan s) t q)"

text \<open>
  The session and the arguments with which \<open>handleSubmitAnswer\<close> calls
  \<open>askQuestion\<close> once the monitor has returned \<open>m\<close>.
\<close>

definition submitCall :: "session \<Rightarrow> monitorOutput \<Rightarrow> session \<times> nat \<times> nat \<times> int" where
  "submitCall s m =
     (case (if isFollowUpActive s then pausedState s else None) of
        Some p \<Rightarrow>
          (let s2 = (logged s m)\<lparr>isFollowUpActive := False, currentFollowUpQuestionText := None,
                                  pausedState := None\<rparr>
           in
           if hasQuestion (interviewPlan s) (topicIndex p) (questionIndex p + 1)
           then (s2, topicIndex p, questionIndex p + 1, NEXT_QUESTION)
           else if hasTopic (interviewPlan s) (topicIndex p + 1)
           then (s2, topicIndex p + 1, 0, NEXT_TOPIC)
           else (s2, topicIndex p + 1, 0, END_INTERVIEW))
      | None \<Rightarrow>
          (if actionCode m = REPEAT_QUESTION \<or> actionCode m = CLARIFY_QUESTION then
             (if MAX_ATTEMPTS_PLANNED \<le> currentQuestionAttempts s + 1
              then ((logged s m)\<lparr>currentQuestionAttempts := currentQuestionAttempts s + 1\<rparr>,
                    currentTopicIndex s, currentQuestionIndex s + 1, NEXT_QUESTION)
              else ((logged s m)\<lparr>currentQuestionAttempts := currentQuestionAttempts s + 1\<rparr>,
                    currentTopicIndex s, currentQuestionIndex s, actionCode m))
           else if actionCode m = NEXT_QUESTION
           then (logged s m, currentTopicIndex s, currentQuestionIndex s + 1, NEXT_QUESTION)
           else if actionCode m = NEXT_TOPIC
           then (logged s m, currentTopicIndex s + 1, 0, NEXT_TOPIC)
           else (logged s m, currentTopicIndex s, currentQuestionIndex s, END_INTERVIEW)))"

text \<open>The position of the session is \<open>(t, q)\<close> or a later one.\<close>

definition notBefore :: "nat \<Rightarrow> nat \<Rightarrow> session \<Rightarrow> bool" where
  "notBefore t q s =
     (t < currentTopicIndex s \<or> (t = currentTopicIndex s \<and> q \<le> currentQuestionIndex s))"

text \<open>
  The session after the setters of the branch of \<open>askQuestion\<close> that ignores a
  follow-up at the streak limit.
\<close>

definition overridden :: "session \<Rightarrow> session" where
  "overridden s =
     s\<lparr>isFollowUpActive := False, currentFollowUpQuestionText := None,
       pausedState := None, currentFollowUpStreak := 0\<rparr>"

text \<open>The session after the setters of the branch that enters a follow-up.\<close>

definition digression :: "session \<Rightarrow> session \<Rightarrow> nat \<Rightarrow> nat \<Rightarrow> int \<Rightarrow> string \<Rightarrow> session" where
  "digression c s t q eff tx =
     s\<lparr>currentFollowUpStreak := currentFollowUpStreak s + 1,
       pausedState := Some \<lparr>topicIndex = t, questionIndex = q,
                            attempts = currentQuestionAttempts c,
                            resumingActionCode = eff\<rparr>,
       isFollowUpActive := True,
       currentFollowUpQuestionText := Some tx,
       isLoading := False\<rparr>"

text \<open>
  The submission is taken as the answer to a question: it is not skipped, and the
  session tells which question it answers.
\<close>

definition answered :: "session \<Rightarrow> answer \<Rightarrow> bool" where
  "answered s a =
     (answerGiven a \<and> \<not> isLoading s \<and> interviewState s = IN_PROGRESS \<and> answerContext s \<noteq> None)"

text \<open>
  An answered turn is a submission that is taken as the answer to a question, so that
  the monitor is called on it. The turn is assessed when that call returns an
  assessment; its record is the assessment tagged with the kind of turn, which the
  closure of the call tells. The assessment fails when the call is rejected. Until
  either happens the turn awaits its assessment: its monitor call is in flight.
\<close>

definition monitorCallAt :: "call list \<Rightarrow> nat \<Rightarrow> session option" where
  "monitorCallAt calls k =
     (if k < length calls then (case calls ! k of MonitorCall c \<Rightarrow> Some c | _ \<Rightarrow> None)
      else None)"

fun answeredTurn :: "session \<times> call list \<Rightarrow> event \<Rightarrow> bool" where
  "answeredTurn sys (SubmitAnswer a) = answered (fst sys) a"
| "answeredTurn sys _ = False"

fun turnRecords :: "session \<times> call list \<Rightarrow> event \<Rightarrow> logEntry list" where
  "turnRecords sys (Returns k (MonitorReplies (MonitorReturns m))) =
     (case monitorCallAt (snd sys) k of
        Some c \<Rightarrow> [\<lparr>monitor = m, entryType = (if isFollowUpActive c then follow_up else planned)\<rparr>]
      | None \<Rightarrow> [])"
| "turnRecords sys _ = []"

fun failedAssessment :: "session \<times> call list \<Rightarrow> event \<Rightarrow> bool" where
  "failedAssessment sys (Returns k (MonitorReplies MonitorRejects)) =
     (monitorCallAt (snd sys) k \<noteq> None)"
| "failedAssessment sys _ = False"

fun answeredTurns :: "session \<times> call list \<Rightarrow> event list \<Rightarrow> nat" where
  "answeredTurns sys [] = 0"
| "answeredTurns sys (e # es) = (if answeredTurn sys e then 1 else 0) + answeredTurns (step sys e) es"

fun recordsOf :: "session \<times> call list \<Rightarrow> event list \<Rightarrow> logEntry list" where
  "recordsOf sys [] = []"
| "recordsOf sys (e # es) = turnRecords sys e @ recordsOf (step sys e) es"

fun failedAssessments :: "session \<times> call list \<Rightarrow> event list \<Rightarrow> nat" where
  "failedAssessments sys [] = 0"
| "failedAssessments sys (e # es) =
     (if failedAssessment sys e then 1 else 0) + failedAssessments (step sys e) es"

fun isMonitorCall :: "call \<Rightarrow> bool" where
  "isMonitorCall (MonitorCall c) = True"
| "isMonitorCall _ = False"

definition awaitingAssessment :: "call list \<Rightarrow> nat" where
  "awaitingAssessment calls = length (filter isMonitorCall calls)"

fun isStartInterview :: "event \<Rightarrow> bool" where
  "isStartInterview (StartInterview description) = True"
| "isStartInterview _ = False"

text \<open>
  The invariant of serial runs behind the bound on the follow-up streak: at most one
  call is in flight, and the streak of the session is at most the streak its closure
  read, unless that one has reached the limit.
\<close>

definition streakBound :: "session \<Rightarrow> session \<Rightarrow> bool" where
  "streakBound c s =
     (currentFollowUpStreak c < MAX_FOLLOW_UP_STREAK \<longrightarrow>
      currentFollowUpStreak s \<le> currentFollowUpStreak c)"

fun callBound :: "session \<Rightarrow> call \<Rightarrow> bool" where
  "callBound s (MonitorCall c) = streakBound c s"
| "callBound s (InterviewerCall c t q code fe) = streakBound c s"
| "callBound s _ = True"

definition streakInvariant :: "session \<times> call list \<Rightarrow> bool" where
  "streakInvariant sys =
     (currentFollowUpStreak (fst sys) \<le> MAX_FOLLOW_UP_STREAK \<and> length (snd sys) \<le> 1 \<and>
      (\<forall>p\<in>set (snd sys). callBound (fst sys) p))"

subsection \<open>The plan of the README walkthrough\<close>

definition examplePlan :: plan where
  "examplePlan =
     \<lparr>topics =
        [\<lparr>name = ''React'',
          questions = [''What is a React component?'', ''How do props work in React?'']\<rparr>,
         \<lparr>name = ''Node.js'',
          questions = [''What is Node.js?'', ''What is the event loop?'',
                       ''What does package.json list?'']\<rparr>]\<rparr>"

definition exampleSession :: session where
  "exampleSession =
     initialState\<lparr>interviewPlan := Some examplePlan, interviewState := IN_PROGRESS\<rparr>"

definition exampleAnswer :: answer where
  "exampleAnswer =
     \<lparr>finalTranscript = [], candidateInput = utf16 ''It is a part of the UI.'', codeContent = []\<rparr>"

definition assessment :: "int \<Rightarrow> monitorOutput" where
  "assessment c =
     \<lparr>mo_topicIndex = 0, mo_questionIndex = 0,
      mo_metrics = \<lparr>accuracy = 1, relevance = 1, clarity = 1, completeness = 1\<rparr>,
      actionCode = c, reason = ''ok'', discussion_point = None\<rparr>"

definition plannedReplies :: "nat \<Rightarrow> interviewerReply" where
  "plannedReplies i = InterviewerReturns ''planned'' ''Next, please.''"

definition followUpReplies :: "nat \<Rightarrow> interviewerReply" where
  "followUpReplies i = InterviewerReturns ''follow-up'' ''Can you say more?''"


text \<open>An assessment whose metrics lie outside the unit interval.\<close>

definition wrongMetrics :: monitorOutput where
  "wrongMetrics =
     (assessment NEXT_QUESTION)
       \<lparr>mo_metrics := \<lparr>accuracy = 2, relevance = - 1, clarity = 1, completeness = 1\<rparr>\<rparr>"

text \<open>
  The session after the interviewer has opened the interview with a follow-up instead
  of the first planned question.
\<close>

definition exampleDigression :: session where
  "exampleDigression =
     exampleSession
       \<lparr>isFollowUpActive := True,
        currentFollowUpQuestionText := Some ''Can you say more?'',
        pausedState := Some \<lparr>topicIndex = 0, questionIndex = 0, attempts = 0,
                              resumingActionCode = NEXT_QUESTION\<rparr>,
        currentFollowUpStreak := 1\<rparr>"

text \<open>The interviewer asks a follow-up once and then carries out the planned action.\<close>

definition oneFollowUp :: "nat \<Rightarrow> interviewerReply" where
  "oneFollowUp i = (if i = 0 then followUpReplies i else plannedReplies i)"

text \<open>A session whose follow-up streak has reached the limit.\<close>

definition exampleStreak :: session where
  "exampleStreak = exampleSession\<lparr>currentFollowUpStreak := MAX_FOLLOW_UP_STREAK\<rparr>"

subsection \<open>Example runs\<close>

text \<open>
  A plan with a third topic, the replies of the examples as events, the events that
  open an interview, and the three events of an answer that is assessed and replied to
  before anything else happens.

  In \<open>serialRun\<close> the first question is asked, the answer is to be repeated, and
  the interviewer digresses three times. In \<open>limitRun\<close> the answer to the third
  follow-up has been assessed and the interviewer is called for the next question; in
  \<open>forcedRun\<close> it replies with a fourth follow-up, which is ignored. In
  \<open>overlappingRun\<close> the candidate then answers while the forced call is in flight,
  and again each time an earlier answer has been replied to while a later one is still
  being processed.
\<close>

definition threeTopicPlan :: plan where
  "threeTopicPlan =
     \<lparr>topics = topics examplePlan @
        [\<lparr>name = ''Testing'', questions = [''What is a unit test?'']\<rparr>]\<rparr>"

definition followUp :: reply where
  "followUp = InterviewerReplies (InterviewerReturns ''follow-up'' ''Can you say more?'')"

definition asPlanned :: reply where
  "asPlanned = InterviewerReplies (InterviewerReturns ''planned'' ''Next, please.'')"

definition assessed :: "int \<Rightarrow> reply" where
  "assessed code = MonitorReplies (MonitorReturns (assessment code))"

definition openingEvents :: "plan \<Rightarrow> reply \<Rightarrow> event list" where
  "openingEvents p r =
     [StartInterview (utf16 ''Web developer''), Returns 0 (PlannerReplies (PlannerReturns p)),
      PlanningComplete, Returns 0 r]"

definition answerEvents :: "int \<Rightarrow> reply \<Rightarrow> event list" where
  "answerEvents code r = [SubmitAnswer exampleAnswer, Returns 0 (assessed code), Returns 0 r]"

definition serialRun :: "plan \<Rightarrow> event list" where
  "serialRun p =
     openingEvents p asPlanned @ answerEvents REPEAT_QUESTION followUp @
     answerEvents NEXT_QUESTION followUp @ answerEvents NEXT_QUESTION followUp"

definition limitRun :: "plan \<Rightarrow> event list" where
  "limitRun p = serialRun p @ [SubmitAnswer exampleAnswer, Returns 0 (assessed NEXT_QUESTION)]"

definition forcedRun :: "plan \<Rightarrow> event list" where
  "forcedRun p = limitRun p @ [Returns 0 followUp]"

definition overlappingRun :: "event list" where
  "overlappingRun =
     forcedRun threeTopicPlan @
     [SubmitAnswer exampleAnswer, Returns 0 asPlanned,
      SubmitAnswer exampleAnswer, Returns 0 (assessed REPEAT_QUESTION), Returns 1 followUp,
      SubmitAnswer exampleAnswer, Returns 0 (assessed REPEAT_QUESTION), Returns 1 followUp,
      SubmitAnswer exampleAnswer, Returns 0 (assessed NEXT_QUESTION), Returns 1 followUp,
      Returns 0 (assessed NEXT_QUESTION), Returns 0 followUp]"

text \<open>An answer whose assessment fails, alone and after an assessed answer.\<close>

definition unassessedRun :: "event list" where
  "unassessedRun = [SubmitAnswer exampleAnswer, Returns 0 (MonitorReplies MonitorRejects)]"

definition assessedRun :: "event list" where
  "assessedRun = answerEvents REPEAT_QUESTION asPlanned @ unassessedRun"


section \<open>Properties\<close>

subsection \<open>What askQuestion leaves alone\<close>

lemma askQuestion_log: "interviewLog (askQuestion c s t q code fe llm i) = interviewLog s"
proof (induction c s t q code fe llm i rule: askQuestion.induct)
  case (1 c s t q code fe llm i)
  show ?case
    by (subst askQuestion.simps) (use 1 in \<open>auto simp: Let_def split: option.splits\<close>)
qed


lemma askQuestion_attempts:
  "currentQuestionAttempts (askQuestion c s t q code fe llm i) \<in> {currentQuestionAttempts s, 0}"
proof (induction c s t q code fe llm i rule: askQuestion.induct)
  case (1 c s t q code fe llm i)
  show ?case
    by (subst askQuestion.simps) (use 1 in \<open>auto simp: Let_def split: option.splits\<close>)
qed

subsection \<open>One level of askQuestion\<close>

lemma askQuestion_planned_reply:
  assumes "llm i = InterviewerReturns ty tx" and "ty \<noteq> ''follow-up''"
  shows "askQuestion c s t q code fe llm i =
         plannedOutcome (askQuestion_resolve (interviewPlan c) t q code fe) s"
proof -
  have out: "callInterviewerLlm x (llm i) = Some \<lparr>out_type = planned, out_text = tx\<rparr>" for x
    using assms by (simp add: callInterviewerLlm_def)
  show ?thesis
    apply (subst askQuestion.simps)
    apply (simp only: out Let_def option.case)
    apply (simp add: plannedOutcome_def Let_def)
    done
qed

lemma askQuestion_end_reply:
  assumes "effectiveActionCode (askQuestion_resolve (interviewPlan c) t q code fe) = END_INTERVIEW"
  shows "interviewState (askQuestion c s t q code fe llm i) = ENDED"
proof (cases "llm i")
  case InterviewerRejects
  then have "callInterviewerLlm x (llm i) = None" for x
    by (simp add: callInterviewerLlm_def)
  then show ?thesis
    by (subst askQuestion.simps) (simp add: Let_def)
next
  case (InterviewerReturns ty tx)
  then have "callInterviewerLlm END_INTERVIEW (llm i) = Some \<lparr>out_type = planned, out_text = tx\<rparr>"
    by (simp add: callInterviewerLlm_def)
  then show ?thesis
    by (subst askQuestion.simps) (simp add: assms Let_def)
qed

subsection \<open>The branches of handleSubmitAnswer\<close>

lemma submit_accepted:
  assumes "answerGiven a" and "\<not> isLoading s" and "interviewState s = IN_PROGRESS"
  shows "handleSubmitAnswer s a mon llm =
     (let s0 = s\<lparr>isLoading := True\<rparr> in
         case answerContext s of
           None \<Rightarrow> s0\<lparr>isLoading := False, interviewState := ENDED\<rparr>
         | Some ctx \<Rightarrow>
             (case mon of
                MonitorRejects \<Rightarrow> s0\<lparr>isLoading := False, interviewState := ENDED\<rparr>
              | MonitorReturns monitorOutput \<Rightarrow>
                  (let s1 = s0\<lparr>interviewLog := interviewLog s0 @
                               [\<lparr>monitor = monitorOutput,
                                 entryType = (if isFollowUpActive s then follow_up else planned)\<rparr>]\<rparr>
                   in
                   case (if isFollowUpActive s then pausedState s else None) of
                     Some p \<Rightarrow>
                       (let resumeTopicIdx = topicIndex p;
                            resumeQuestionIdx = questionIndex p;
                            s2 = s1\<lparr>isFollowUpActive := False,
                                    currentFollowUpQuestionText := None,
                                    pausedState := None\<rparr>
                        in
                        if hasQuestion (interviewPlan s) resumeTopicIdx (resumeQuestionIdx + 1) then
                          askQuestion s s2 resumeTopicIdx (resumeQuestionIdx + 1) NEXT_QUESTION False llm 0
                        else if hasTopic (interviewPlan s) (resumeTopicIdx + 1) then
                          askQuestion s s2 (resumeTopicIdx + 1) 0 NEXT_TOPIC False llm 0
                        else
                          askQuestion s s2 (resumeTopicIdx + 1) 0 END_INTERVIEW False llm 0)
                   | None \<Rightarrow>
                       (let requested = actionCode monitorOutput;
                            retry = (requested = REPEAT_QUESTION \<or> requested = CLARIFY_QUESTION);
                            currentAttempts =
                              (if retry then currentQuestionAttempts s + 1
                               else currentQuestionAttempts s);
                            s2 = (if retry then s1\<lparr>currentQuestionAttempts := currentAttempts\<rparr>
                                  else s1);
                            nextActionCode =
                              (if retry \<and> currentAttempts \<ge> MAX_ATTEMPTS_PLANNED
                               then NEXT_QUESTION else requested)
                        in
                        if nextActionCode = REPEAT_QUESTION \<or> nextActionCode = CLARIFY_QUESTION then
                          askQuestion s s2 (currentTopicIndex s) (currentQuestionIndex s)
                            nextActionCode False llm 0
                        else if nextActionCode = NEXT_QUESTION then
                          askQuestion s s2 (currentTopicIndex s) (currentQuestionIndex s + 1)
                            nextActionCode False llm 0
                        else if nextActionCode = NEXT_TOPIC then
                          askQuestion s s2 (currentTopicIndex s + 1) 0 nextActionCode False llm 0
                        else
                          askQuestion s s2 (currentTopicIndex s) (currentQuestionIndex s)
                            END_INTERVIEW False llm 0))))"
proof -
  have "\<not> ((trim (if finalTranscript a \<noteq> [] then finalTranscript a else candidateInput a) = [] \<and>
            trim (codeContent a) = []) \<or> isLoading s \<or> interviewState s \<noteq> IN_PROGRESS)"
    using assms unfolding answerGiven_def by blast
  then show ?thesis
    unfolding handleSubmitAnswer_def by (simp only: Let_def if_False)
qed

lemma planned_context:
  assumes "\<not> isFollowUpActive s"
    and "hasQuestion (interviewPlan s) (currentTopicIndex s) (currentQuestionIndex s)"
  shows "answerContext s = Some (currentTopicIndex s, currentQuestionIndex s)"
  using assms by (simp add: answerContext_def)

lemma submit_planned:
  assumes "answerGiven a" and "\<not> isLoading s" and "interviewState s = IN_PROGRESS"
    and "\<not> isFollowUpActive s"
    and "hasQuestion (interviewPlan s) (currentTopicIndex s) (currentQuestionIndex s)"
  shows "handleSubmitAnswer s a (MonitorReturns m) llm =
     (if actionCode m = REPEAT_QUESTION \<or> actionCode m = CLARIFY_QUESTION then
        (if MAX_ATTEMPTS_PLANNED \<le> currentQuestionAttempts s + 1 then
           askQuestion s ((logged s m)\<lparr>currentQuestionAttempts := currentQuestionAttempts s + 1\<rparr>)
             (currentTopicIndex s) (currentQuestionIndex s + 1) NEXT_QUESTION False llm 0
         else
           askQuestion s ((logged s m)\<lparr>currentQuestionAttempts := currentQuestionAttempts s + 1\<rparr>)
             (currentTopicIndex s) (currentQuestionIndex s) (actionCode m) False llm 0)
      else if actionCode m = NEXT_QUESTION then
        askQuestion s (logged s m) (currentTopicIndex s) (currentQuestionIndex s + 1)
          NEXT_QUESTION False llm 0
      else if actionCode m = NEXT_TOPIC then
        askQuestion s (logged s m) (currentTopicIndex s + 1) 0 NEXT_TOPIC False llm 0
      else
        askQuestion s (logged s m) (currentTopicIndex s) (currentQuestionIndex s)
          END_INTERVIEW False llm 0)"
proof -
  note ctx = planned_context [OF assms(4,5)]
  have nofu: "(if isFollowUpActive s then pausedState s else None) = None"
    using assms(4) by simp
  show ?thesis
    unfolding submit_accepted [OF assms(1-3)]
    apply (simp only: ctx nofu option.case monitorReply.case Let_def prod.case)
    apply (simp add: logged_def assms(4))
    done
qed

lemma submit_follow_up:
  assumes "answerGiven a" and "\<not> isLoading s" and "interviewState s = IN_PROGRESS"
    and "isFollowUpActive s" and "pausedState s = Some p"
  shows "handleSubmitAnswer s a (MonitorReturns m) llm =
     (let s2 = (logged s m)\<lparr>isFollowUpActive := False, currentFollowUpQuestionText := None,
                             pausedState := None\<rparr>
      in
      if hasQuestion (interviewPlan s) (topicIndex p) (questionIndex p + 1) then
        askQuestion s s2 (topicIndex p) (questionIndex p + 1) NEXT_QUESTION False llm 0
      else if hasTopic (interviewPlan s) (topicIndex p + 1) then
        askQuestion s s2 (topicIndex p + 1) 0 NEXT_TOPIC False llm 0
      else
        askQuestion s s2 (topicIndex p + 1) 0 END_INTERVIEW False llm 0)"
proof -
  have ctx: "answerContext s = Some (topicIndex p, questionIndex p)"
    using assms(4,5) by (simp add: answerContext_def)
  have fu: "(if isFollowUpActive s then pausedState s else None) = Some p"
    using assms(4,5) by simp
  show ?thesis
    unfolding submit_accepted [OF assms(1-3)]
    apply (simp only: ctx fu option.case monitorReply.case Let_def prod.case)
    apply (simp add: logged_def assms(4))
    done
qed

subsection \<open>Facts about the example\<close>

lemma exampleAnswer_given: "answerGiven exampleAnswer"
  by (simp add: answerGiven_def exampleAnswer_def trim_def isSpace_def utf16_def)

lemma exampleSession_fields:
  "interviewPlan exampleSession = Some examplePlan"
  "currentTopicIndex exampleSession = 0"
  "currentQuestionIndex exampleSession = 0"
  "currentQuestionAttempts exampleSession = 0"
  "interviewLog exampleSession = []"
  "interviewState exampleSession = IN_PROGRESS"
  "\<not> isLoading exampleSession"
  "\<not> isFollowUpActive exampleSession"
  "pausedState exampleSession = None"
  "currentFollowUpStreak exampleSession = 0"
  by (simp_all add: exampleSession_def initialState_def)

lemma examplePlan_shape:
  "length (topics examplePlan) = 2"
  "length (questions (topics examplePlan ! 0)) = 2"
  "length (questions (topics examplePlan ! Suc 0)) = 3"
  by (simp_all add: examplePlan_def)

lemma examplePlan_hasQuestion:
  "hasQuestion (Some examplePlan) t q \<longleftrightarrow> (t = 0 \<and> q < 2) \<or> (t = 1 \<and> q < 3)"
  by (auto simp: hasQuestion_def examplePlan_def nth_Cons' less_Suc_eq numeral_2_eq_2 numeral_3_eq_3)


subsection \<open>Retries and the calls of handleSubmitAnswer\<close>

lemma resolve_open_position:
  assumes "hasQuestion ip t q"
  shows "askQuestion_resolve ip t q code False =
           \<lparr>plannedTopicName = (if code = END_INTERVIEW then ''Interview Conclusion''
                                 else name (planTopics ip ! t)),
            plannedQuestionText = (if code = END_INTERVIEW then ''Provide closing statement.''
                                   else questions (planTopics ip ! t) ! q),
            effectiveActionCode = (if code = NEXT_TOPIC then NEXT_QUESTION else code),
            endInterview = False, nextStateTopicIndex = t, nextStateQuestionIndex = q\<rparr>"
  using assms
  by (auto simp: askQuestion_resolve_def hasQuestion_def hasTopic_def planTopics_def Let_def
      split: option.splits)







lemma submit_skipped:
  assumes "\<not> (answerGiven a \<and> \<not> isLoading s \<and> interviewState s = IN_PROGRESS)"
  shows "handleSubmitAnswer s a mon llm = s"
proof -
  have "(trim (if finalTranscript a \<noteq> [] then finalTranscript a else candidateInput a) = [] \<and>
            trim (codeContent a) = []) \<or> isLoading s \<or> interviewState s \<noteq> IN_PROGRESS"
    using assms unfolding answerGiven_def by blast
  then show ?thesis
    unfolding handleSubmitAnswer_def by (simp only: Let_def if_True)
qed

lemma submit_no_question:
  assumes "answerGiven a" and "\<not> isLoading s" and "interviewState s = IN_PROGRESS"
    and "answerContext s = None"
  shows "handleSubmitAnswer s a mon llm = s\<lparr>isLoading := False, interviewState := ENDED\<rparr>"
  unfolding submit_accepted [OF assms(1-3)]
  by (simp add: assms(4))

lemma submit_monitor_rejects:
  assumes "answerGiven a" and "\<not> isLoading s" and "interviewState s = IN_PROGRESS"
  shows "handleSubmitAnswer s a MonitorRejects llm = s\<lparr>isLoading := False, interviewState := ENDED\<rparr>"
proof (cases "answerContext s")
  case None
  then show ?thesis by (simp add: submit_no_question [OF assms])
next
  case (Some ctx)
  then show ?thesis
    unfolding submit_accepted [OF assms(1-3)] by simp
qed


lemma submit_asked:
  assumes "answerGiven a" and "\<not> isLoading s" and "interviewState s = IN_PROGRESS"
    and "answerContext s = Some ctx"
  shows "handleSubmitAnswer s a (MonitorReturns m) llm =
         (case submitCall s m of (s2, t, q, code) \<Rightarrow> askQuestion s s2 t q code False llm 0)"
proof (cases "if isFollowUpActive s then pausedState s else None")
  case None
  show ?thesis
    unfolding submit_accepted [OF assms(1-3)] assms(4) submitCall_def None
    by (simp add: logged_def Let_def)
next
  case (Some p)
  show ?thesis
    unfolding submit_accepted [OF assms(1-3)] assms(4) submitCall_def Some
    by (simp add: logged_def Let_def)
qed

lemma submitCall_frame:
  assumes "submitCall s m = (s2, t, q, code)"
  shows "interviewLog s2 = interviewLog s @
           [\<lparr>monitor = m, entryType = (if isFollowUpActive s then follow_up else planned)\<rparr>]"
    and "interviewPlan s2 = interviewPlan s"
    and "currentFollowUpStreak s2 = currentFollowUpStreak s"
    and "interviewState s2 = interviewState s"
  using assms
  by (auto simp: submitCall_def logged_def Let_def split: option.splits if_splits)

lemma handleSubmitAnswer_cases [case_names skipped ended asked]:
  obtains "handleSubmitAnswer s a mon llm = s"
  | "answerGiven a" and "\<not> isLoading s" and "interviewState s = IN_PROGRESS"
      and "answerContext s = None \<or> mon = MonitorRejects"
      and "handleSubmitAnswer s a mon llm = s\<lparr>isLoading := False, interviewState := ENDED\<rparr>"
  | m s2 t q code where "answerGiven a" and "\<not> isLoading s" and "interviewState s = IN_PROGRESS"
      and "answerContext s \<noteq> None" and "mon = MonitorReturns m"
      and "submitCall s m = (s2, t, q, code)"
      and "handleSubmitAnswer s a mon llm = askQuestion s s2 t q code False llm 0"
proof (cases "answerGiven a \<and> \<not> isLoading s \<and> interviewState s = IN_PROGRESS")
  case False
  then show ?thesis by (intro that(1)) (simp add: submit_skipped)
next
  case True
  then have acc: "answerGiven a" "\<not> isLoading s" "interviewState s = IN_PROGRESS"
    by simp_all
  show ?thesis
  proof (cases "answerContext s")
    case None
    then show ?thesis
      using acc by (intro that(2)) (simp_all add: submit_no_question [OF acc])
  next
    case (Some ctx)
    show ?thesis
    proof (cases mon)
      case MonitorRejects
      then show ?thesis
        using acc by (intro that(2)) (simp_all add: submit_monitor_rejects [OF acc])
    next
      case (MonitorReturns m)
      obtain s2 t q code where call: "submitCall s m = (s2, t, q, code)"
        by (cases "submitCall s m") auto
      have "handleSubmitAnswer s a mon llm = askQuestion s s2 t q code False llm 0"
        by (simp add: MonitorReturns submit_asked [OF acc Some] call)
      with acc Some MonitorReturns call show ?thesis
        by (intro that(3)) simp_all
    qed
  qed
qed

lemma handleSubmitAnswer_log:
  "interviewLog (handleSubmitAnswer s a mon llm) =
     (if answerGiven a \<and> \<not> isLoading s \<and> interviewState s = IN_PROGRESS \<and> answerContext s \<noteq> None
      then (case mon of
              MonitorRejects \<Rightarrow> interviewLog s
            | MonitorReturns m \<Rightarrow>
                interviewLog s @
                  [\<lparr>monitor = m, entryType = (if isFollowUpActive s then follow_up else planned)\<rparr>])
      else interviewLog s)"
proof (cases "answerGiven a \<and> \<not> isLoading s \<and> interviewState s = IN_PROGRESS")
  case False
  then show ?thesis by (auto simp add: submit_skipped)
next
  case True
  then have acc: "answerGiven a" "\<not> isLoading s" "interviewState s = IN_PROGRESS"
    by simp_all
  show ?thesis
  proof (cases "answerContext s")
    case None
    then show ?thesis by (simp add: submit_no_question [OF acc])
  next
    case (Some ctx)
    show ?thesis
    proof (cases mon)
      case MonitorRejects
      then show ?thesis by (simp add: submit_monitor_rejects [OF acc])
    next
      case (MonitorReturns m)
      obtain s2 t q code where call: "submitCall s m = (s2, t, q, code)"
        by (cases "submitCall s m") auto
      show ?thesis
        using acc Some
        by (simp add: MonitorReturns submit_asked [OF acc Some] call askQuestion_log
            submitCall_frame(1) [OF call])
    qed
  qed
qed

subsection \<open>Runs and the example sessions\<close>





lemma exampleDigression_fields:
  "interviewPlan exampleDigression = Some examplePlan"
  "interviewState exampleDigression = IN_PROGRESS"
  "\<not> isLoading exampleDigression"
  "isFollowUpActive exampleDigression"
  "pausedState exampleDigression =
     Some \<lparr>topicIndex = 0, questionIndex = 0, attempts = 0, resumingActionCode = NEXT_QUESTION\<rparr>"
  "currentFollowUpStreak exampleDigression = 1"
  "currentQuestionAttempts exampleDigression = 0"
  "currentTopicIndex exampleDigression = 0"
  "currentQuestionIndex exampleDigression = 0"
  "interviewLog exampleDigression = []"
  by (simp_all add: exampleDigression_def exampleSession_fields)



subsection \<open>Case analysis and induction for askQuestion\<close>

lemma askQuestion_level:
  "askQuestion c s t q code fe llm i =
     (let r = askQuestion_resolve (interviewPlan c) t q code fe in
      case callInterviewerLlm (effectiveActionCode r) (llm i) of
        None \<Rightarrow> s\<lparr>interviewState := ENDED, isLoading := False\<rparr>
      | Some out \<Rightarrow>
          if out_type out = follow_up \<and> effectiveActionCode r \<noteq> END_INTERVIEW then
            if currentFollowUpStreak c < MAX_FOLLOW_UP_STREAK
            then digression c s t q (effectiveActionCode r) (out_text out)
            else if hasQuestion (interviewPlan c) t (q + 1) then
              askQuestion c
                ((overridden s)\<lparr>currentTopicIndex := t, currentQuestionIndex := q + 1\<rparr>)
                t (q + 1) NEXT_QUESTION False llm (Suc i)
            else if hasTopic (interviewPlan c) (t + 1) then
              askQuestion c
                ((overridden s)\<lparr>currentTopicIndex := t + 1, currentQuestionIndex := 0\<rparr>)
                (t + 1) 0 NEXT_TOPIC False llm (Suc i)
            else (overridden s)\<lparr>interviewState := ENDED, isLoading := False\<rparr>
          else plannedOutcome r s)"
  by (subst askQuestion.simps)
     (simp only: Let_def overridden_def digression_def plannedOutcome_def)

lemma askQuestion_cases [case_names rejected planned entered forced_question forced_topic forced_end]:
  obtains
    "askQuestion c s t q code fe llm i = s\<lparr>interviewState := ENDED, isLoading := False\<rparr>"
  | "askQuestion c s t q code fe llm i = plannedOutcome (askQuestion_resolve (interviewPlan c) t q code fe) s"
  | out where "callInterviewerLlm (effectiveActionCode (askQuestion_resolve (interviewPlan c) t q code fe)) (llm i) = Some out"
      and "out_type out = follow_up" and "effectiveActionCode (askQuestion_resolve (interviewPlan c) t q code fe) \<noteq> END_INTERVIEW"
      and "currentFollowUpStreak c < MAX_FOLLOW_UP_STREAK"
      and "askQuestion c s t q code fe llm i =
             digression c s t q (effectiveActionCode (askQuestion_resolve (interviewPlan c) t q code fe)) (out_text out)"
  | out where "callInterviewerLlm (effectiveActionCode (askQuestion_resolve (interviewPlan c) t q code fe)) (llm i) = Some out"
      and "out_type out = follow_up" and "effectiveActionCode (askQuestion_resolve (interviewPlan c) t q code fe) \<noteq> END_INTERVIEW"
      and "\<not> currentFollowUpStreak c < MAX_FOLLOW_UP_STREAK"
      and "hasQuestion (interviewPlan c) t (q + 1)"
      and "askQuestion c s t q code fe llm i =
             askQuestion c
               ((overridden s)\<lparr>currentTopicIndex := t, currentQuestionIndex := q + 1\<rparr>)
               t (q + 1) NEXT_QUESTION False llm (Suc i)"
  | out where "callInterviewerLlm (effectiveActionCode (askQuestion_resolve (interviewPlan c) t q code fe)) (llm i) = Some out"
      and "out_type out = follow_up" and "effectiveActionCode (askQuestion_resolve (interviewPlan c) t q code fe) \<noteq> END_INTERVIEW"
      and "\<not> currentFollowUpStreak c < MAX_FOLLOW_UP_STREAK"
      and "\<not> hasQuestion (interviewPlan c) t (q + 1)"
      and "hasTopic (interviewPlan c) (t + 1)"
      and "askQuestion c s t q code fe llm i =
             askQuestion c
               ((overridden s)\<lparr>currentTopicIndex := t + 1, currentQuestionIndex := 0\<rparr>)
               (t + 1) 0 NEXT_TOPIC False llm (Suc i)"
  | out where "callInterviewerLlm (effectiveActionCode (askQuestion_resolve (interviewPlan c) t q code fe)) (llm i) = Some out"
      and "out_type out = follow_up" and "effectiveActionCode (askQuestion_resolve (interviewPlan c) t q code fe) \<noteq> END_INTERVIEW"
      and "\<not> currentFollowUpStreak c < MAX_FOLLOW_UP_STREAK"
      and "\<not> hasQuestion (interviewPlan c) t (q + 1)"
      and "\<not> hasTopic (interviewPlan c) (t + 1)"
      and "askQuestion c s t q code fe llm i =
             (overridden s)\<lparr>interviewState := ENDED, isLoading := False\<rparr>"
proof -
  note lev = askQuestion_level [of c s t q code fe llm i]
  show ?thesis
  proof (cases "callInterviewerLlm (effectiveActionCode (askQuestion_resolve (interviewPlan c) t q code fe)) (llm i)")
    case None
    then have "askQuestion c s t q code fe llm i = s\<lparr>interviewState := ENDED, isLoading := False\<rparr>"
      by (simp add: lev Let_def)
    then show ?thesis by (rule that(1))
  next
    case (Some out)
    show ?thesis
    proof (cases "out_type out = follow_up \<and> effectiveActionCode (askQuestion_resolve (interviewPlan c) t q code fe) \<noteq> END_INTERVIEW")
      case False
      then have "(out_type out = follow_up \<and> effectiveActionCode (askQuestion_resolve (interviewPlan c) t q code fe) \<noteq> END_INTERVIEW) = False"
        by simp
      then have "askQuestion c s t q code fe llm i = plannedOutcome (askQuestion_resolve (interviewPlan c) t q code fe) s"
        by (simp only: lev Let_def Some option.case if_False)
      then show ?thesis by (rule that(2))
    next
      case True
      then have fu: "(out_type out = follow_up \<and> effectiveActionCode (askQuestion_resolve (interviewPlan c) t q code fe) \<noteq> END_INTERVIEW) = True"
        by simp
      from True have fu1: "out_type out = follow_up" and fu2: "effectiveActionCode (askQuestion_resolve (interviewPlan c) t q code fe) \<noteq> END_INTERVIEW"
        by simp_all
      show ?thesis
      proof (cases "currentFollowUpStreak c < MAX_FOLLOW_UP_STREAK")
        case True
        then have "askQuestion c s t q code fe llm i =
               digression c s t q (effectiveActionCode (askQuestion_resolve (interviewPlan c) t q code fe)) (out_text out)"
          by (simp only: lev Let_def Some option.case fu if_True)
        with Some fu1 fu2 True show ?thesis by (intro that(3))
      next
        case lim: False
        show ?thesis
        proof (cases "hasQuestion (interviewPlan c) t (q + 1)")
          case True
          with lim have "askQuestion c s t q code fe llm i =
               askQuestion c
                 ((overridden s)\<lparr>currentTopicIndex := t, currentQuestionIndex := q + 1\<rparr>)
                 t (q + 1) NEXT_QUESTION False llm (Suc i)"
            by (simp only: lev Let_def Some option.case fu if_True if_False)
          with Some fu1 fu2 lim True show ?thesis by (intro that(4))
        next
          case nq: False
          show ?thesis
          proof (cases "hasTopic (interviewPlan c) (t + 1)")
            case True
            with lim nq have "askQuestion c s t q code fe llm i =
               askQuestion c
                 ((overridden s)\<lparr>currentTopicIndex := t + 1, currentQuestionIndex := 0\<rparr>)
                 (t + 1) 0 NEXT_TOPIC False llm (Suc i)"
              by (simp only: lev Let_def Some option.case fu if_True if_False)
            with Some fu1 fu2 lim nq True show ?thesis by (intro that(5))
          next
            case False
            with lim nq have "askQuestion c s t q code fe llm i =
               (overridden s)\<lparr>interviewState := ENDED, isLoading := False\<rparr>"
              by (simp only: lev Let_def Some option.case fu if_True if_False)
            with Some fu1 fu2 lim nq False show ?thesis by (intro that(6))
          qed
        qed
      qed
    qed
  qed
qed

lemma askQuestion_induct [case_names level]:
  fixes P :: "session \<Rightarrow> session \<Rightarrow> nat \<Rightarrow> nat \<Rightarrow> int \<Rightarrow> bool \<Rightarrow> (nat \<Rightarrow> interviewerReply) \<Rightarrow> nat \<Rightarrow> bool"
  assumes "\<And>c s t q code fe llm i.
     (\<And>out. callInterviewerLlm
               (effectiveActionCode (askQuestion_resolve (interviewPlan c) t q code fe)) (llm i) = Some out \<Longrightarrow>
            out_type out = follow_up \<Longrightarrow>
            effectiveActionCode (askQuestion_resolve (interviewPlan c) t q code fe) \<noteq> END_INTERVIEW \<Longrightarrow>
            \<not> currentFollowUpStreak c < MAX_FOLLOW_UP_STREAK \<Longrightarrow>
            hasQuestion (interviewPlan c) t (q + 1) \<Longrightarrow>
            P c ((overridden s)\<lparr>currentTopicIndex := t, currentQuestionIndex := q + 1\<rparr>)
              t (q + 1) NEXT_QUESTION False llm (Suc i)) \<Longrightarrow>
     (\<And>out. callInterviewerLlm
               (effectiveActionCode (askQuestion_resolve (interviewPlan c) t q code fe)) (llm i) = Some out \<Longrightarrow>
            out_type out = follow_up \<Longrightarrow>
            effectiveActionCode (askQuestion_resolve (interviewPlan c) t q code fe) \<noteq> END_INTERVIEW \<Longrightarrow>
            \<not> currentFollowUpStreak c < MAX_FOLLOW_UP_STREAK \<Longrightarrow>
            \<not> hasQuestion (interviewPlan c) t (q + 1) \<Longrightarrow>
            hasTopic (interviewPlan c) (t + 1) \<Longrightarrow>
            P c ((overridden s)\<lparr>currentTopicIndex := t + 1, currentQuestionIndex := 0\<rparr>)
              (t + 1) 0 NEXT_TOPIC False llm (Suc i)) \<Longrightarrow>
     P c s t q code fe llm i"
  shows "P c s t q code fe llm i"
proof (induction c s t q code fe llm i rule: askQuestion.induct)
  case (1 c s t q code fe llm i)
  show ?case
  proof (rule assms)
    fix out
    assume "callInterviewerLlm
              (effectiveActionCode (askQuestion_resolve (interviewPlan c) t q code fe)) (llm i) = Some out"
      "out_type out = follow_up"
      "effectiveActionCode (askQuestion_resolve (interviewPlan c) t q code fe) \<noteq> END_INTERVIEW"
      "\<not> currentFollowUpStreak c < MAX_FOLLOW_UP_STREAK"
      "hasQuestion (interviewPlan c) t (q + 1)"
    then show "P c ((overridden s)\<lparr>currentTopicIndex := t, currentQuestionIndex := q + 1\<rparr>)
              t (q + 1) NEXT_QUESTION False llm (Suc i)"
      unfolding overridden_def by (intro "1.IH"(1)) simp_all
  next
    fix out
    assume "callInterviewerLlm
              (effectiveActionCode (askQuestion_resolve (interviewPlan c) t q code fe)) (llm i) = Some out"
      "out_type out = follow_up"
      "effectiveActionCode (askQuestion_resolve (interviewPlan c) t q code fe) \<noteq> END_INTERVIEW"
      "\<not> currentFollowUpStreak c < MAX_FOLLOW_UP_STREAK"
      "\<not> hasQuestion (interviewPlan c) t (q + 1)"
      "hasTopic (interviewPlan c) (t + 1)"
    then show "P c ((overridden s)\<lparr>currentTopicIndex := t + 1, currentQuestionIndex := 0\<rparr>)
              (t + 1) 0 NEXT_TOPIC False llm (Suc i)"
      unfolding overridden_def by (intro "1.IH"(2)) simp_all
  qed
qed

lemma resolve_next_state:
  "(nextStateTopicIndex (askQuestion_resolve ip t q code fe) = t \<and>
    nextStateQuestionIndex (askQuestion_resolve ip t q code fe) = q) \<or>
   (nextStateTopicIndex (askQuestion_resolve ip t q code fe) = t + 1 \<and>
    nextStateQuestionIndex (askQuestion_resolve ip t q code fe) = 0)"
  by (simp add: askQuestion_resolve_def Let_def)

lemma resolve_effective_kept:
  assumes "effectiveActionCode (askQuestion_resolve ip t q code fe) \<noteq> NEXT_QUESTION"
    and "effectiveActionCode (askQuestion_resolve ip t q code fe) \<noteq> NEXT_TOPIC"
    and "effectiveActionCode (askQuestion_resolve ip t q code fe) \<noteq> END_INTERVIEW"
  shows "effectiveActionCode (askQuestion_resolve ip t q code fe) = code \<and>
         nextStateTopicIndex (askQuestion_resolve ip t q code fe) = t \<and>
         nextStateQuestionIndex (askQuestion_resolve ip t q code fe) = q"
  using assms by (simp add: askQuestion_resolve_def Let_def split: if_splits)

lemma overridden_fields:
  "currentQuestionAttempts (overridden s) = currentQuestionAttempts s"
  "currentTopicIndex (overridden s) = currentTopicIndex s"
  "currentQuestionIndex (overridden s) = currentQuestionIndex s"
  "interviewState (overridden s) = interviewState s"
  "interviewLog (overridden s) = interviewLog s"
  "interviewPlan (overridden s) = interviewPlan s"
  "isLoading (overridden s) = isLoading s"
  "\<not> isFollowUpActive (overridden s)"
  "pausedState (overridden s) = None"
  "currentFollowUpQuestionText (overridden s) = None"
  "currentFollowUpStreak (overridden s) = 0"
  by (simp_all add: overridden_def)

lemma digression_fields:
  "currentQuestionAttempts (digression c s t q eff tx) = currentQuestionAttempts s"
  "currentTopicIndex (digression c s t q eff tx) = currentTopicIndex s"
  "currentQuestionIndex (digression c s t q eff tx) = currentQuestionIndex s"
  "interviewState (digression c s t q eff tx) = interviewState s"
  "isFollowUpActive (digression c s t q eff tx)"
  "currentFollowUpStreak (digression c s t q eff tx) = currentFollowUpStreak s + 1"
  "pausedState (digression c s t q eff tx) =
     Some \<lparr>topicIndex = t, questionIndex = q, attempts = currentQuestionAttempts c,
           resumingActionCode = eff\<rparr>"
  by (simp_all add: digression_def)

lemma plannedOutcome_fields:
  "currentFollowUpStreak (plannedOutcome r s) = 0"
  "\<not> isFollowUpActive (plannedOutcome r s)"
  "pausedState (plannedOutcome r s) = None"
  "currentQuestionAttempts (plannedOutcome r s) =
     (if effectiveActionCode r = NEXT_QUESTION \<or> effectiveActionCode r = NEXT_TOPIC then 0
      else currentQuestionAttempts s)"
  "interviewState (plannedOutcome r s) =
     (if endInterview r \<or> effectiveActionCode r = END_INTERVIEW then ENDED else interviewState s)"
  "currentTopicIndex (plannedOutcome r s) =
     (if endInterview r \<or> effectiveActionCode r = END_INTERVIEW then currentTopicIndex s
      else nextStateTopicIndex r)"
  "currentQuestionIndex (plannedOutcome r s) =
     (if endInterview r \<or> effectiveActionCode r = END_INTERVIEW then currentQuestionIndex s
      else nextStateQuestionIndex r)"
  by (simp_all add: plannedOutcome_def Let_def)

lemma resolve_endInterview:
  "endInterview (askQuestion_resolve ip t q code fe) \<Longrightarrow>
   effectiveActionCode (askQuestion_resolve ip t q code fe) = END_INTERVIEW"
  by (simp add: askQuestion_resolve_def Let_def split: if_splits)

lemma notBefore_weaken:
  "notBefore t (Suc q) s \<Longrightarrow> notBefore t q s"
  "notBefore (Suc t) 0 s \<Longrightarrow> notBefore t q s"
  by (auto simp: notBefore_def)

lemma askQuestion_attempts_position:
  "currentQuestionAttempts (askQuestion c s t q code fe llm i) = currentQuestionAttempts s \<or>
   (currentQuestionAttempts (askQuestion c s t q code fe llm i) = 0 \<and>
    \<not> isFollowUpActive (askQuestion c s t q code fe llm i) \<and>
    notBefore t q (askQuestion c s t q code fe llm i))"
proof (induction c s t q code fe llm i rule: askQuestion_induct)
  case (level c s t q code fe llm i)
  let ?r = "askQuestion_resolve (interviewPlan c) t q code fe"
  show ?case
  proof (rule askQuestion_cases [where c = c and s = s and t = t and q = q and code = code
        and fe = fe and llm = llm and i = i], goal_cases)
    case 1
    then show ?case by simp
  next
    case 2
    show ?case
    proof (cases "effectiveActionCode ?r = NEXT_QUESTION \<or> effectiveActionCode ?r = NEXT_TOPIC")
      case True
      then have ne: "\<not> (endInterview ?r \<or> effectiveActionCode ?r = END_INTERVIEW)"
        using resolve_endInterview [of "interviewPlan c" t q code fe] by auto
      have "notBefore t q (plannedOutcome ?r s)"
        using resolve_next_state [of "interviewPlan c" t q code fe] ne
        by (auto simp: notBefore_def plannedOutcome_fields)
      with True show ?thesis
        by (simp add: 2 plannedOutcome_fields)
    next
      case False
      then show ?thesis by (simp add: 2 plannedOutcome_fields)
    qed
  next
    case (3 out)
    then show ?case by (simp add: digression_fields)
  next
    case (4 out)
    from level(1) [OF 4(1-5)] show ?case
      unfolding 4(6) by (auto simp: overridden_fields dest: notBefore_weaken)
  next
    case (5 out)
    from level(2) [OF 5(1-6)] show ?case
      unfolding 5(7) by (auto simp: overridden_fields dest: notBefore_weaken)
  next
    case (6 out)
    then show ?case by (simp add: overridden_fields)
  qed
qed

lemma askQuestion_outcome:
  "interviewState (askQuestion c s t q code fe llm i) = ENDED \<or>
   (currentQuestionAttempts (askQuestion c s t q code fe llm i) = 0 \<and>
    \<not> isFollowUpActive (askQuestion c s t q code fe llm i)) \<or>
   (currentTopicIndex (askQuestion c s t q code fe llm i) = currentTopicIndex s \<and>
    currentQuestionIndex (askQuestion c s t q code fe llm i) = currentQuestionIndex s \<and>
    isFollowUpActive (askQuestion c s t q code fe llm i) \<and>
    currentFollowUpStreak c < MAX_FOLLOW_UP_STREAK) \<or>
   (code \<noteq> NEXT_QUESTION \<and> code \<noteq> NEXT_TOPIC \<and> code \<noteq> END_INTERVIEW \<and>
    currentTopicIndex (askQuestion c s t q code fe llm i) = t \<and>
    currentQuestionIndex (askQuestion c s t q code fe llm i) = q)"
proof (induction c s t q code fe llm i rule: askQuestion_induct)
  case (level c s t q code fe llm i)
  let ?r = "askQuestion_resolve (interviewPlan c) t q code fe"
  show ?case
  proof (rule askQuestion_cases [where c = c and s = s and t = t and q = q and code = code
        and fe = fe and llm = llm and i = i], goal_cases)
    case 1
    then show ?case by simp
  next
    case 2
    show ?case
    proof (cases "effectiveActionCode ?r = NEXT_QUESTION \<or> effectiveActionCode ?r = NEXT_TOPIC")
      case True
      then show ?thesis by (simp add: 2 plannedOutcome_fields)
    next
      case False
      show ?thesis
      proof (cases "endInterview ?r \<or> effectiveActionCode ?r = END_INTERVIEW")
        case True
        then show ?thesis by (simp add: 2 plannedOutcome_fields)
      next
        case ne: False
        with False have k: "effectiveActionCode ?r = code \<and> nextStateTopicIndex ?r = t \<and>
            nextStateQuestionIndex ?r = q"
          by (intro resolve_effective_kept) simp_all
        with False ne have "code \<noteq> NEXT_QUESTION \<and> code \<noteq> NEXT_TOPIC \<and> code \<noteq> END_INTERVIEW"
          by auto
        with k ne show ?thesis by (simp add: 2 plannedOutcome_fields)
      qed
    qed
  next
    case (3 out)
    then show ?case by (simp add: digression_fields)
  next
    case (4 out)
    from level(1) [OF 4(1-5)] 4(4) show ?case
      unfolding 4(6) by auto
  next
    case (5 out)
    from level(2) [OF 5(1-6)] 5(4) show ?case
      unfolding 5(7) by auto
  next
    case (6 out)
    then show ?case by simp
  qed
qed

lemma askQuestion_no_digression:
  assumes "\<not> currentFollowUpStreak c < MAX_FOLLOW_UP_STREAK"
    and "\<not> isFollowUpActive s" and "pausedState s = None" and "currentFollowUpStreak s = 0"
  shows "\<not> isFollowUpActive (askQuestion c s t q code fe llm i) \<and>
         pausedState (askQuestion c s t q code fe llm i) = None \<and>
         currentFollowUpStreak (askQuestion c s t q code fe llm i) = 0"
  using assms
proof (induction c s t q code fe llm i rule: askQuestion_induct)
  case (level c s t q code fe llm i)
  show ?case
  proof (rule askQuestion_cases [where c = c and s = s and t = t and q = q and code = code
        and fe = fe and llm = llm and i = i], goal_cases)
    case 1
    with level.prems show ?case by simp
  next
    case 2
    then show ?case by (simp add: plannedOutcome_fields)
  next
    case (3 out)
    with level.prems show ?case by simp
  next
    case (4 out)
    have "\<not> isFollowUpActive
            (askQuestion c ((overridden s)\<lparr>currentTopicIndex := t, currentQuestionIndex := q + 1\<rparr>)
               t (q + 1) NEXT_QUESTION False llm (Suc i)) \<and>
          pausedState
            (askQuestion c ((overridden s)\<lparr>currentTopicIndex := t, currentQuestionIndex := q + 1\<rparr>)
               t (q + 1) NEXT_QUESTION False llm (Suc i)) = None \<and>
          currentFollowUpStreak
            (askQuestion c ((overridden s)\<lparr>currentTopicIndex := t, currentQuestionIndex := q + 1\<rparr>)
               t (q + 1) NEXT_QUESTION False llm (Suc i)) = 0"
      by (rule level.IH(1) [OF 4(1-5) level.prems(1)]) (simp_all add: overridden_fields)
    then show ?case unfolding 4(6) .
  next
    case (5 out)
    have "\<not> isFollowUpActive
            (askQuestion c ((overridden s)\<lparr>currentTopicIndex := t + 1, currentQuestionIndex := 0\<rparr>)
               (t + 1) 0 NEXT_TOPIC False llm (Suc i)) \<and>
          pausedState
            (askQuestion c ((overridden s)\<lparr>currentTopicIndex := t + 1, currentQuestionIndex := 0\<rparr>)
               (t + 1) 0 NEXT_TOPIC False llm (Suc i)) = None \<and>
          currentFollowUpStreak
            (askQuestion c ((overridden s)\<lparr>currentTopicIndex := t + 1, currentQuestionIndex := 0\<rparr>)
               (t + 1) 0 NEXT_TOPIC False llm (Suc i)) = 0"
      by (rule level.IH(2) [OF 5(1-6) level.prems(1)]) (simp_all add: overridden_fields)
    then show ?case unfolding 5(7) .
  next
    case (6 out)
    then show ?case by (simp add: overridden_fields)
  qed
qed



subsection \<open>The follow-up streak\<close>

lemma callInterviewerLlm_follow_up:
  assumes "callInterviewerLlm eff reply = Some out" and "out_type out = follow_up"
  shows "eff \<noteq> END_INTERVIEW"
  using assms by (auto simp: callInterviewerLlm_def split: interviewerReply.splits if_splits)

lemma askQuestion_forced:
  assumes "\<not> currentFollowUpStreak c < MAX_FOLLOW_UP_STREAK"
    and "callInterviewerLlm (effectiveActionCode (askQuestion_resolve (interviewPlan c) t q code fe))
           (llm i) = Some out"
    and "out_type out = follow_up"
  shows "askQuestion c s t q code fe llm i =
     (if hasQuestion (interviewPlan c) t (q + 1) then
        askQuestion c ((overridden s)\<lparr>currentTopicIndex := t, currentQuestionIndex := q + 1\<rparr>)
          t (q + 1) NEXT_QUESTION False llm (Suc i)
      else if hasTopic (interviewPlan c) (t + 1) then
        askQuestion c ((overridden s)\<lparr>currentTopicIndex := t + 1, currentQuestionIndex := 0\<rparr>)
          (t + 1) 0 NEXT_TOPIC False llm (Suc i)
      else (overridden s)\<lparr>interviewState := ENDED, isLoading := False\<rparr>)"
proof -
  have "effectiveActionCode (askQuestion_resolve (interviewPlan c) t q code fe) \<noteq> END_INTERVIEW"
    using assms(2,3) by (rule callInterviewerLlm_follow_up)
  with assms(3) have fu: "(out_type out = follow_up \<and>
      effectiveActionCode (askQuestion_resolve (interviewPlan c) t q code fe) \<noteq> END_INTERVIEW) = True"
    by simp
  from assms(1) have lim: "(currentFollowUpStreak c < MAX_FOLLOW_UP_STREAK) = False"
    by simp
  show ?thesis
    by (simp only: askQuestion_level [of c s t q code fe llm i] Let_def assms(2) option.case fu lim
        if_True if_False)
qed

lemma askQuestion_forced_cleared:
  assumes "\<not> currentFollowUpStreak c < MAX_FOLLOW_UP_STREAK"
    and "callInterviewerLlm (effectiveActionCode (askQuestion_resolve (interviewPlan c) t q code fe))
           (llm i) = Some out"
    and "out_type out = follow_up"
  shows "\<not> isFollowUpActive (askQuestion c s t q code fe llm i) \<and>
         pausedState (askQuestion c s t q code fe llm i) = None \<and>
         currentFollowUpStreak (askQuestion c s t q code fe llm i) = 0"
proof -
  note forced = askQuestion_forced [where llm = llm and i = i and s = s, OF assms]
  have cleared: "\<not> isFollowUpActive ((overridden s)\<lparr>currentTopicIndex := t', currentQuestionIndex := q'\<rparr>)"
    "pausedState ((overridden s)\<lparr>currentTopicIndex := t', currentQuestionIndex := q'\<rparr>) = None"
    "currentFollowUpStreak ((overridden s)\<lparr>currentTopicIndex := t', currentQuestionIndex := q'\<rparr>) = 0"
    for t' q'
    by (simp_all add: overridden_fields)
  show ?thesis
  proof (cases "hasQuestion (interviewPlan c) t (q + 1)")
    case True
    with forced have eq: "askQuestion c s t q code fe llm i =
        askQuestion c ((overridden s)\<lparr>currentTopicIndex := t, currentQuestionIndex := q + 1\<rparr>)
          t (q + 1) NEXT_QUESTION False llm (Suc i)"
      by simp
    show ?thesis
      unfolding eq by (rule askQuestion_no_digression [OF assms(1) cleared])
  next
    case nq: False
    show ?thesis
    proof (cases "hasTopic (interviewPlan c) (t + 1)")
      case True
      with forced nq have eq: "askQuestion c s t q code fe llm i =
          askQuestion c ((overridden s)\<lparr>currentTopicIndex := t + 1, currentQuestionIndex := 0\<rparr>)
            (t + 1) 0 NEXT_TOPIC False llm (Suc i)"
        by simp
      show ?thesis
        unfolding eq by (rule askQuestion_no_digression [OF assms(1) cleared])
    next
      case False
      with forced nq show ?thesis
        by (simp add: overridden_fields)
    qed
  qed
qed

lemma initialState_streak: "currentFollowUpStreak initialState = 0"
  by (simp add: initialState_def)

lemma example_follow_up_out:
  "callInterviewerLlm
     (effectiveActionCode (askQuestion_resolve (Some examplePlan) 0 0 NEXT_QUESTION False))
     (oneFollowUp 0) =
   Some \<lparr>out_type = follow_up, out_text = ''Can you say more?''\<rparr>"
  by (simp add: resolve_open_position examplePlan_hasQuestion callInterviewerLlm_def
      oneFollowUp_def followUpReplies_def)

lemma exampleStreak_fields:
  "interviewPlan exampleStreak = Some examplePlan"
  "currentFollowUpStreak exampleStreak = MAX_FOLLOW_UP_STREAK"
  by (simp_all add: exampleStreak_def exampleSession_fields)

subsection \<open>Attempts, positions and the resumption after a follow-up\<close>

lemma submitCall_follow_up:
  assumes "isFollowUpActive s" and "pausedState s = Some p"
    and "submitCall s m = (s2, t, q, code)"
  shows "currentQuestionAttempts s2 = currentQuestionAttempts s"
    and "(t = topicIndex p \<and> q = questionIndex p + 1) \<or> (t = topicIndex p + 1 \<and> q = 0)"
    and "code = NEXT_QUESTION \<or> code = NEXT_TOPIC \<or> code = END_INTERVIEW"
  using assms
  by (auto simp: submitCall_def logged_def Let_def split: if_splits)

lemma submitCall_position:
  assumes "submitCall s m = (s2, t, q, code)"
  shows "currentTopicIndex s2 = currentTopicIndex s"
    and "currentQuestionIndex s2 = currentQuestionIndex s"
    and "code = NEXT_QUESTION \<or> code = NEXT_TOPIC \<or> code = END_INTERVIEW \<or>
         (t = currentTopicIndex s \<and> q = currentQuestionIndex s)"
  using assms
  by (auto simp: submitCall_def logged_def Let_def split: option.splits if_splits)

lemma exampleDigression_retry_fields:
  "isFollowUpActive (exampleDigression\<lparr>currentQuestionAttempts := 1\<rparr>)"
  "pausedState (exampleDigression\<lparr>currentQuestionAttempts := 1\<rparr>) =
     Some \<lparr>topicIndex = 0, questionIndex = 0, attempts = 0, resumingActionCode = NEXT_QUESTION\<rparr>"
  by (simp_all add: exampleDigression_fields)

lemma handleSubmitAnswer_new_position:
  assumes "interviewState (handleSubmitAnswer s a mon llm) = IN_PROGRESS"
    and "currentTopicIndex (handleSubmitAnswer s a mon llm) \<noteq> currentTopicIndex s \<or>
         currentQuestionIndex (handleSubmitAnswer s a mon llm) \<noteq> currentQuestionIndex s"
  shows "currentQuestionAttempts (handleSubmitAnswer s a mon llm) = 0"
proof (rule handleSubmitAnswer_cases [where s = s and a = a and mon = mon and llm = llm], goal_cases)
  case 1
  with assms(2) show ?case by simp
next
  case 2
  with assms(2) show ?case by simp
next
  case (3 m s2 t q code)
  note pos = submitCall_position [OF 3(6)]
  from askQuestion_outcome [of s s2 t q code False llm 0] assms
  show ?case
    unfolding 3(7) using pos by auto
qed

lemma handleStartInterview_new_position:
  "handleStartInterview s d reply = s \<or> interviewState (handleStartInterview s d reply) \<noteq> IN_PROGRESS"
  by (simp add: handleStartInterview_def Let_def split: plannerReply.splits)

lemma planningCompleteEffect_attempts:
  "planningCompleteEffect s llm = s \<or> currentQuestionAttempts (planningCompleteEffect s llm) = 0"
proof (cases "interviewState s = PLANNING_COMPLETE \<and> interviewPlan s \<noteq> None")
  case True
  let ?s0 = "s\<lparr>interviewState := IN_PROGRESS, currentTopicIndex := 0, currentQuestionIndex := 0,
             currentQuestionAttempts := 0, isFollowUpActive := False,
             currentFollowUpQuestionText := None, pausedState := None,
             currentFollowUpStreak := 0\<rparr>"
  from True have "planningCompleteEffect s llm = askQuestion s ?s0 0 0 NEXT_QUESTION False llm 0"
    by (simp add: planningCompleteEffect_def)
  moreover have "currentQuestionAttempts (askQuestion s ?s0 0 0 NEXT_QUESTION False llm 0) \<in>
      {currentQuestionAttempts ?s0, 0}"
    by (rule askQuestion_attempts)
  ultimately show ?thesis by simp
next
  case False
  then have "planningCompleteEffect s llm = s"
    unfolding planningCompleteEffect_def by (simp only: if_False)
  then show ?thesis by simp
qed

lemma example_resolve_second_question:
  "askQuestion_resolve (Some examplePlan) 0 (Suc 0) NEXT_QUESTION False =
     \<lparr>plannedTopicName = name (planTopics (Some examplePlan) ! 0),
      plannedQuestionText = questions (planTopics (Some examplePlan) ! 0) ! Suc 0,
      effectiveActionCode = NEXT_QUESTION, endInterview = False,
      nextStateTopicIndex = 0, nextStateQuestionIndex = Suc 0\<rparr>"
  by (simp add: resolve_open_position examplePlan_hasQuestion)

lemma example_next_question_step:
  "handleSubmitAnswer (exampleSession\<lparr>currentQuestionAttempts := 2\<rparr>) exampleAnswer
     (MonitorReturns (assessment NEXT_QUESTION)) plannedReplies =
   plannedOutcome (askQuestion_resolve (Some examplePlan) 0 (Suc 0) NEXT_QUESTION False)
     (logged (exampleSession\<lparr>currentQuestionAttempts := 2\<rparr>) (assessment NEXT_QUESTION))"
proof -
  let ?s = "exampleSession\<lparr>currentQuestionAttempts := 2\<rparr>"
  have q: "hasQuestion (interviewPlan ?s) (currentTopicIndex ?s) (currentQuestionIndex ?s)"
    by (simp add: exampleSession_fields examplePlan_hasQuestion)
  have "handleSubmitAnswer ?s exampleAnswer (MonitorReturns (assessment NEXT_QUESTION)) plannedReplies =
        askQuestion ?s (logged ?s (assessment NEXT_QUESTION)) 0 (Suc 0) NEXT_QUESTION False
          plannedReplies 0"
    by (simp add: submit_planned [OF exampleAnswer_given _ _ _ q] exampleSession_fields assessment_def)
  also have "\<dots> = plannedOutcome (askQuestion_resolve (Some examplePlan) 0 (Suc 0) NEXT_QUESTION False)
      (logged ?s (assessment NEXT_QUESTION))"
    by (simp add: askQuestion_planned_reply [of plannedReplies 0 "''planned''" "''Next, please.''"]
        plannedReplies_def exampleSession_fields)
  finally show ?thesis .
qed

subsection \<open>Retries from a newly asked question\<close>


subsection \<open>The callbacks as runs of their calls\<close>

lemma askQuestion_returns_level:
  "askQuestion_returns c s t q code fe reply =
     (let r = askQuestion_resolve (interviewPlan c) t q code fe in
      case callInterviewerLlm (effectiveActionCode r) reply of
        None \<Rightarrow> (s\<lparr>interviewState := ENDED, isLoading := False\<rparr>, [])
      | Some out \<Rightarrow>
          if out_type out = follow_up \<and> effectiveActionCode r \<noteq> END_INTERVIEW then
            if currentFollowUpStreak c < MAX_FOLLOW_UP_STREAK
            then (digression c s t q (effectiveActionCode r) (out_text out), [])
            else if hasQuestion (interviewPlan c) t (q + 1) then
              ((overridden s)\<lparr>currentTopicIndex := t, currentQuestionIndex := q + 1,
                              isLoading := False\<rparr>,
               [InterviewerCall c t (q + 1) NEXT_QUESTION False])
            else if hasTopic (interviewPlan c) (t + 1) then
              ((overridden s)\<lparr>currentTopicIndex := t + 1, currentQuestionIndex := 0,
                              isLoading := False\<rparr>,
               [InterviewerCall c (t + 1) 0 NEXT_TOPIC False])
            else ((overridden s)\<lparr>interviewState := ENDED\<rparr>, [ClosingCall])
          else if endInterview r \<or> effectiveActionCode r = END_INTERVIEW
            then ((plannedOutcome r s)\<lparr>isLoading := isLoading s\<rparr>, [ClosingCall])
            else (plannedOutcome r s, []))"
  unfolding askQuestion_returns_def askQuestion_call_def Let_def overridden_def digression_def
    plannedOutcome_def
  by (simp split: option.split)

lemma run_append: "run sys (es @ es') = run (run sys es) es'"
  by (induction es arbitrary: sys) simp_all

lemma interviewerReturns_Suc:
  "interviewerReturns llm i (Suc n) =
     Returns 0 (InterviewerReplies (llm i)) # interviewerReturns llm (Suc i) n"
  by (simp add: interviewerReturns_def map_upt_Suc del: upt_Suc)

lemma interviewerReturns_0: "interviewerReturns llm i 0 = []"
  by (simp add: interviewerReturns_def)

lemma step_interviewer:
  "step (s, [InterviewerCall c t q code fe]) (Returns 0 (InterviewerReplies reply)) =
     askQuestion_returns c s t q code fe reply"
  by (cases "askQuestion_returns c s t q code fe reply") simp

lemma step_closing: "step (s, [ClosingCall]) (Returns 0 ClosingDone) = (s\<lparr>isLoading := False\<rparr>, [])"
  by simp

lemma plannedOutcome_loading:
  "plannedOutcome r (s\<lparr>isLoading := b\<rparr>) = plannedOutcome r s"
  "(plannedOutcome r s)\<lparr>isLoading := False\<rparr> = plannedOutcome r s"
  by (simp_all add: plannedOutcome_def Let_def)

lemma digression_loading: "digression c (s\<lparr>isLoading := b\<rparr>) t q eff tx = digression c s t q eff tx"
  by (simp add: digression_def)

lemma askQuestion_run:
  "\<exists>n fin. (fin = [] \<or> fin = [Returns 0 ClosingDone]) \<and>
     run (s\<lparr>isLoading := b\<rparr>, [InterviewerCall c t q code fe]) (interviewerReturns llm i n @ fin) =
       (askQuestion c s t q code fe llm i, [])"
proof (induction c s t q code fe llm i arbitrary: b rule: askQuestion_induct)
  case (level c s t q code fe llm i)
  let ?r = "askQuestion_resolve (interviewPlan c) t q code fe"
  let ?s = "s\<lparr>isLoading := b\<rparr>"
  note lev = askQuestion_level [of c s t q code fe llm i]
  note ret = askQuestion_returns_level [of c ?s t q code fe "llm i"]
  have one: "run (?s, [InterviewerCall c t q code fe])
        (interviewerReturns llm i (Suc n) @ fin) =
      run (askQuestion_returns c ?s t q code fe (llm i)) (interviewerReturns llm (Suc i) n @ fin)"
    for fin n
    by (simp only: interviewerReturns_Suc append.simps run.simps step_interviewer)
  have direct: ?case if "askQuestion_returns c ?s t q code fe (llm i) = (askQuestion c s t q code fe llm i, [])"
  proof -
    have "run (?s, [InterviewerCall c t q code fe]) (interviewerReturns llm i (Suc 0) @ []) =
        (askQuestion c s t q code fe llm i, [])"
      by (simp only: one that interviewerReturns_0 append.simps run.simps)
    then show ?thesis by blast
  qed
  have closing: ?case if "askQuestion_returns c ?s t q code fe (llm i) = (x, [ClosingCall])"
    and "askQuestion c s t q code fe llm i = x\<lparr>isLoading := False\<rparr>" for x
  proof -
    have "run (?s, [InterviewerCall c t q code fe])
          (interviewerReturns llm i (Suc 0) @ [Returns 0 ClosingDone]) =
        (askQuestion c s t q code fe llm i, [])"
      by (simp only: one that interviewerReturns_0 append.simps run.simps step_closing)
    then show ?thesis by blast
  qed
  have forced: ?case
    if "askQuestion_returns c ?s t q code fe (llm i) =
          (x\<lparr>isLoading := False\<rparr>, [InterviewerCall c t' q' code' False])"
      and "askQuestion c s t q code fe llm i = askQuestion c x t' q' code' False llm (Suc i)"
      and "\<And>b. \<exists>n fin. (fin = [] \<or> fin = [Returns 0 ClosingDone]) \<and>
             run (x\<lparr>isLoading := b\<rparr>, [InterviewerCall c t' q' code' False])
               (interviewerReturns llm (Suc i) n @ fin) =
             (askQuestion c x t' q' code' False llm (Suc i), [])"
    for x t' q' code'
  proof -
    from that(3) [of False]
    obtain n fin where fin: "fin = [] \<or> fin = [Returns 0 ClosingDone]"
      and ih: "run (x\<lparr>isLoading := False\<rparr>, [InterviewerCall c t' q' code' False])
               (interviewerReturns llm (Suc i) n @ fin) =
             (askQuestion c x t' q' code' False llm (Suc i), [])"
      by blast
    have "run (?s, [InterviewerCall c t q code fe]) (interviewerReturns llm i (Suc n) @ fin) =
        (askQuestion c s t q code fe llm i, [])"
      by (simp only: one that(1,2) ih)
    with fin show ?thesis by blast
  qed
  show ?case
  proof (cases "callInterviewerLlm (effectiveActionCode ?r) (llm i)")
    case None
    show ?thesis
      by (rule direct) (simp add: lev ret Let_def None)
  next
    case (Some out)
    show ?thesis
    proof (cases "out_type out = follow_up \<and> effectiveActionCode ?r \<noteq> END_INTERVIEW")
      case False
      then have nf: "(out_type out = follow_up \<and> effectiveActionCode ?r \<noteq> END_INTERVIEW) = False"
        by simp
      have at: "askQuestion c s t q code fe llm i = plannedOutcome ?r s"
        by (simp only: lev Let_def Some option.case nf if_False)
      show ?thesis
      proof (cases "endInterview ?r \<or> effectiveActionCode ?r = END_INTERVIEW")
        case True
        then have e: "(endInterview ?r \<or> effectiveActionCode ?r = END_INTERVIEW) = True" by simp
        have st: "askQuestion_returns c ?s t q code fe (llm i) =
            ((plannedOutcome ?r ?s)\<lparr>isLoading := isLoading ?s\<rparr>, [ClosingCall])"
          by (simp only: ret Let_def Some option.case nf e if_False if_True)
        show ?thesis
          by (rule closing [OF st]) (simp add: at plannedOutcome_def Let_def)
      next
        case False
        then have e: "(endInterview ?r \<or> effectiveActionCode ?r = END_INTERVIEW) = False" by simp
        have st: "askQuestion_returns c ?s t q code fe (llm i) = (plannedOutcome ?r ?s, [])"
          by (simp only: ret Let_def Some option.case nf e if_False if_True)
        show ?thesis
          by (rule direct) (simp add: st at plannedOutcome_loading)
      qed
    next
      case True
      then have fu: "out_type out = follow_up" "effectiveActionCode ?r \<noteq> END_INTERVIEW"
        and f: "(out_type out = follow_up \<and> effectiveActionCode ?r \<noteq> END_INTERVIEW) = True"
        by simp_all
      show ?thesis
      proof (cases "currentFollowUpStreak c < MAX_FOLLOW_UP_STREAK")
        case True
        have at: "askQuestion c s t q code fe llm i =
            digression c s t q (effectiveActionCode ?r) (out_text out)"
          using True by (simp only: lev Let_def Some option.case f if_True)
        have st: "askQuestion_returns c ?s t q code fe (llm i) =
            (digression c ?s t q (effectiveActionCode ?r) (out_text out), [])"
          using True by (simp only: ret Let_def Some option.case f if_True)
        show ?thesis
          by (rule direct) (simp add: st at digression_loading)
      next
        case lim: False
        show ?thesis
        proof (cases "hasQuestion (interviewPlan c) t (q + 1)")
          case True
          let ?x = "(overridden s)\<lparr>currentTopicIndex := t, currentQuestionIndex := q + 1\<rparr>"
          have at: "askQuestion c s t q code fe llm i = askQuestion c ?x t (q + 1) NEXT_QUESTION False llm (Suc i)"
            using lim True by (simp only: lev Let_def Some option.case f if_True if_False)
          have "askQuestion_returns c ?s t q code fe (llm i) =
              ((overridden ?s)\<lparr>currentTopicIndex := t, currentQuestionIndex := q + 1,
                  isLoading := False\<rparr>, [InterviewerCall c t (q + 1) NEXT_QUESTION False])"
            using lim True by (simp only: ret Let_def Some option.case f if_True if_False)
          then have st: "askQuestion_returns c ?s t q code fe (llm i) =
              (?x\<lparr>isLoading := False\<rparr>, [InterviewerCall c t (q + 1) NEXT_QUESTION False])"
            by (simp add: overridden_def)
          show ?thesis
            by (rule forced [OF st at]) (rule level(1) [OF Some fu lim True])
        next
          case nq: False
          show ?thesis
          proof (cases "hasTopic (interviewPlan c) (t + 1)")
            case True
            let ?x = "(overridden s)\<lparr>currentTopicIndex := t + 1, currentQuestionIndex := 0\<rparr>"
            have at: "askQuestion c s t q code fe llm i = askQuestion c ?x (t + 1) 0 NEXT_TOPIC False llm (Suc i)"
              using lim nq True by (simp only: lev Let_def Some option.case f if_True if_False)
            have "askQuestion_returns c ?s t q code fe (llm i) =
                ((overridden ?s)\<lparr>currentTopicIndex := t + 1, currentQuestionIndex := 0,
                    isLoading := False\<rparr>, [InterviewerCall c (t + 1) 0 NEXT_TOPIC False])"
              using lim nq True by (simp only: ret Let_def Some option.case f if_True if_False)
            then have st: "askQuestion_returns c ?s t q code fe (llm i) =
                (?x\<lparr>isLoading := False\<rparr>, [InterviewerCall c (t + 1) 0 NEXT_TOPIC False])"
              by (simp add: overridden_def)
            show ?thesis
              by (rule forced [OF st at]) (rule level(2) [OF Some fu lim nq True])
          next
            case False
            have at: "askQuestion c s t q code fe llm i =
                (overridden s)\<lparr>interviewState := ENDED, isLoading := False\<rparr>"
              using lim nq False by (simp only: lev Let_def Some option.case f if_True if_False)
            have st: "askQuestion_returns c ?s t q code fe (llm i) =
                ((overridden ?s)\<lparr>interviewState := ENDED\<rparr>, [ClosingCall])"
              using lim nq False by (simp only: ret Let_def Some option.case f if_True if_False)
            show ?thesis
              by (rule closing [OF st]) (simp add: at overridden_def)
          qed
        qed
      qed
    qed
  qed
qed


lemma submit_call:
  "handleSubmitAnswer_call s a =
     (if \<not> (answerGiven a \<and> \<not> isLoading s \<and> interviewState s = IN_PROGRESS) then (s, [])
      else if answerContext s = None then (s\<lparr>isLoading := False, interviewState := ENDED\<rparr>, [])
      else (s\<lparr>isLoading := True\<rparr>, [MonitorCall s]))"
  unfolding handleSubmitAnswer_call_def answerGiven_def Let_def
  by (simp split: option.split)

lemma submit_returns:
  "handleSubmitAnswer_returns s (s\<lparr>isLoading := True\<rparr>) (MonitorReturns m) =
     (case submitCall s m of (s2, t, q, code) \<Rightarrow> (s2, [InterviewerCall s t q code False]))"
  unfolding handleSubmitAnswer_returns_def submitCall_def askQuestion_call_def logged_def Let_def
  by (simp split: option.split)

lemma submit_returns_rejects:
  "handleSubmitAnswer_returns c s MonitorRejects = (s\<lparr>isLoading := False, interviewState := ENDED\<rparr>, [])"
  by (simp add: handleSubmitAnswer_returns_def)

lemma step_monitor:
  "step (s, [MonitorCall c]) (Returns 0 (MonitorReplies reply)) = handleSubmitAnswer_returns c s reply"
  by (cases "handleSubmitAnswer_returns c s reply") simp

lemma step_submit: "step (s, []) (SubmitAnswer a) = handleSubmitAnswer_call s a"
  by (cases "handleSubmitAnswer_call s a") simp

lemma handleSubmitAnswer_run:
  "\<exists>es. (es = [] \<or> es = [Returns 0 (MonitorReplies mon)] \<or>
          (\<exists>n fin. (fin = [] \<or> fin = [Returns 0 ClosingDone]) \<and>
             es = Returns 0 (MonitorReplies mon) # interviewerReturns llm 0 n @ fin)) \<and>
     run (s, []) (SubmitAnswer a # es) = (handleSubmitAnswer s a mon llm, [])"
proof (cases "answerGiven a \<and> \<not> isLoading s \<and> interviewState s = IN_PROGRESS")
  case False
  then have "run (s, []) (SubmitAnswer a # []) = (handleSubmitAnswer s a mon llm, [])"
    by (simp only: run.simps step_submit submit_call submit_skipped [OF False] if_True simp_thms)
  then show ?thesis by blast
next
  case True
  then have acc: "answerGiven a" "\<not> isLoading s" "interviewState s = IN_PROGRESS" by simp_all
  show ?thesis
  proof (cases "answerContext s")
    case None
    have "run (s, []) (SubmitAnswer a # []) = (handleSubmitAnswer s a mon llm, [])"
      using acc None by (simp add: step_submit submit_call submit_no_question [OF acc None])
    then show ?thesis by blast
  next
    case (Some ctx)
    have sub: "step (s, []) (SubmitAnswer a) = (s\<lparr>isLoading := True\<rparr>, [MonitorCall s])"
      using acc Some by (simp add: step_submit submit_call)
    show ?thesis
    proof (cases mon)
      case MonitorRejects
      have "run (s, []) (SubmitAnswer a # [Returns 0 (MonitorReplies mon)]) =
          (handleSubmitAnswer s a mon llm, [])"
        unfolding MonitorRejects
        by (simp only: run.simps sub step_monitor submit_returns_rejects
              submit_monitor_rejects [OF acc]) simp
      then show ?thesis by blast
    next
      case (MonitorReturns m)
      obtain s2 t q code where call: "submitCall s m = (s2, t, q, code)"
        by (cases "submitCall s m") auto
      have at: "handleSubmitAnswer s a mon llm = askQuestion s s2 t q code False llm 0"
        by (simp add: MonitorReturns submit_asked [OF acc Some] call)
      have load: "s2\<lparr>isLoading := True\<rparr> = s2"
        using call by (auto simp: submitCall_def logged_def Let_def split: option.splits if_splits)
      from askQuestion_run [where s = s2 and b = True and c = s and t = t and q = q and code = code and fe = False and llm = llm and i = 0]
      obtain n fin where fin: "fin = [] \<or> fin = [Returns 0 ClosingDone]"
        and r: "run (s2, [InterviewerCall s t q code False]) (interviewerReturns llm 0 n @ fin) =
                  (askQuestion s s2 t q code False llm 0, [])"
        by (auto simp: load)
      have "run (s, []) (SubmitAnswer a # Returns 0 (MonitorReplies mon) # interviewerReturns llm 0 n @ fin) =
          (handleSubmitAnswer s a mon llm, [])"
        unfolding MonitorReturns
        by (simp only: run.simps sub step_monitor submit_returns call prod.case r
              at [unfolded MonitorReturns])
      with fin show ?thesis by blast
    qed
  qed
qed

lemma start_call:
  "handleStartInterview s d reply =
     (case handleStartInterview_call s d of
        (s', []) \<Rightarrow> s'
      | (s', call # calls) \<Rightarrow> handleStartInterview_returns s' reply)"
  by (simp add: handleStartInterview_def handleStartInterview_call_def
      handleStartInterview_returns_def Let_def split: plannerReply.split)

lemma handleStartInterview_run:
  "\<exists>es. (es = [] \<or> es = [Returns 0 (PlannerReplies reply)]) \<and>
     run (s, []) (StartInterview d # es) = (handleStartInterview s d reply, [])"
proof (cases "d = [] \<or> trim d = []")
  case True
  then have "run (s, []) (StartInterview d # []) = (handleStartInterview s d reply, [])"
    by (simp add: start_call handleStartInterview_call_def)
  then show ?thesis by blast
next
  case False
  then have "run (s, []) (StartInterview d # [Returns 0 (PlannerReplies reply)]) =
      (handleStartInterview s d reply, [])"
    by (simp add: start_call handleStartInterview_call_def)
  then show ?thesis by blast
qed

lemma planningCompleteEffect_run:
  "\<exists>n fin. (fin = [] \<or> fin = [Returns 0 ClosingDone]) \<and>
     run (s, []) (PlanningComplete # interviewerReturns llm 0 n @ fin) =
       (planningCompleteEffect s llm, [])"
proof (cases "interviewState s = PLANNING_COMPLETE \<and> interviewPlan s \<noteq> None")
  case False
  then have "(interviewState s = PLANNING_COMPLETE \<and> interviewPlan s \<noteq> None) = False" by simp
  then have "run (s, []) (PlanningComplete # interviewerReturns llm 0 0 @ []) =
      (planningCompleteEffect s llm, [])"
    by (simp only: planningCompleteEffect_def planningCompleteEffect_call_def interviewerReturns_0
          if_False append.simps run.simps step.simps Let_def prod.case)
  then show ?thesis by blast
next
  case True
  let ?x = "s\<lparr>interviewState := IN_PROGRESS, currentTopicIndex := 0, currentQuestionIndex := 0,
             currentQuestionAttempts := 0, isFollowUpActive := False,
             currentFollowUpQuestionText := None, pausedState := None,
             currentFollowUpStreak := 0\<rparr>"
  from askQuestion_run [where s = ?x and b = True and c = s and t = 0 and q = 0 and code = NEXT_QUESTION and fe = False and llm = llm and i = 0]
  obtain n fin where fin: "fin = [] \<or> fin = [Returns 0 ClosingDone]"
    and r: "run (?x\<lparr>isLoading := True\<rparr>, [InterviewerCall s 0 0 NEXT_QUESTION False])
              (interviewerReturns llm 0 n @ fin) =
            (askQuestion s ?x 0 0 NEXT_QUESTION False llm 0, [])"
    by blast
  have st: "step (s, []) PlanningComplete =
      (?x\<lparr>isLoading := True\<rparr>, [InterviewerCall s 0 0 NEXT_QUESTION False])"
    using True by (simp add: planningCompleteEffect_call_def askQuestion_call_def)
  have "run (s, []) (PlanningComplete # interviewerReturns llm 0 n @ fin) =
      (planningCompleteEffect s llm, [])"
    using True by (simp only: run.simps st r planningCompleteEffect_def if_True simp_thms)
  with fin show ?thesis by blast
qed


lemma interviewerReturns_returns: "\<forall>x\<in>set (interviewerReturns llm i n). \<not> startsChain x"
  by (auto simp: interviewerReturns_def)

lemma takeTurn_run:
  "\<exists>es. (\<forall>x\<in>set es. \<not> startsChain x) \<and> run (s, []) (turnEvent t # es) = (takeTurn s t, [])"
proof (cases t)
  case (StartTurn d reply)
  from handleStartInterview_run [of reply s d]
  obtain es where es: "es = [] \<or> es = [Returns 0 (PlannerReplies reply)]"
    and r: "run (s, []) (StartInterview d # es) = (handleStartInterview s d reply, [])"
    by blast
  from es have "\<forall>x\<in>set es. \<not> startsChain x" by auto
  with r show ?thesis
    unfolding StartTurn turnEvent.simps takeTurn.simps by blast
next
  case (OpeningTurn llm)
  from planningCompleteEffect_run [of s llm]
  obtain n fin where "fin = [] \<or> fin = [Returns 0 ClosingDone]"
    and "run (s, []) (PlanningComplete # interviewerReturns llm 0 n @ fin) =
       (planningCompleteEffect s llm, [])"
    by blast
  moreover from this(1) have "\<forall>x\<in>set (interviewerReturns llm 0 n @ fin). \<not> startsChain x"
    using interviewerReturns_returns [of llm 0 n] by auto
  ultimately show ?thesis
    unfolding OpeningTurn turnEvent.simps takeTurn.simps by blast
next
  case (AnswerTurn a mon llm)
  from handleSubmitAnswer_run [of mon llm s a]
  obtain es where es: "es = [] \<or> es = [Returns 0 (MonitorReplies mon)] \<or>
          (\<exists>n fin. (fin = [] \<or> fin = [Returns 0 ClosingDone]) \<and>
             es = Returns 0 (MonitorReplies mon) # interviewerReturns llm 0 n @ fin)"
    and r: "run (s, []) (SubmitAnswer a # es) = (handleSubmitAnswer s a mon llm, [])"
    by blast
  from es have "\<forall>x\<in>set es. \<not> startsChain x"
    using interviewerReturns_returns [of llm 0] by auto
  with r show ?thesis
    unfolding AnswerTurn turnEvent.simps takeTurn.simps by blast
qed

lemma serial_returns: "\<forall>x\<in>set es. \<not> startsChain x \<Longrightarrow> serial sys es"
  by (induction es arbitrary: sys) simp_all

lemma serial_append: "serial sys (es @ es') \<longleftrightarrow> serial sys es \<and> serial (run sys es) es'"
  by (induction es arbitrary: sys) simp_all

lemma takeTurns_run:
  "\<exists>es. serial (s, []) es \<and> run (s, []) es = (takeTurns s ts, [])"
proof (induction ts arbitrary: s)
  case Nil
  have "serial (s, []) [] \<and> run (s, []) [] = (takeTurns s [], [])" by simp
  then show ?case by blast
next
  case (Cons t ts)
  from takeTurn_run [of s t]
  obtain es1 where r1: "\<forall>x\<in>set es1. \<not> startsChain x"
    and s1: "run (s, []) (turnEvent t # es1) = (takeTurn s t, [])"
    by blast
  from Cons.IH [of "takeTurn s t"]
  obtain es2 where r2: "serial (takeTurn s t, []) es2"
    and s2: "run (takeTurn s t, []) es2 = (takeTurns (takeTurn s t) ts, [])"
    by blast
  have "serial (s, []) (turnEvent t # es1)"
    using serial_returns [OF r1] by simp
  then have "serial (s, []) ((turnEvent t # es1) @ es2)"
    unfolding serial_append s1 using r2 by simp
  moreover have "run (s, []) ((turnEvent t # es1) @ es2) = (takeTurns s (t # ts), [])"
    unfolding run_append s1 s2 by simp
  ultimately show ?case by blast
qed

subsection \<open>Branches of the continuation of askQuestion\<close>

lemma askQuestion_returns_cases
  [case_names rejected entered forced_question forced_topic forced_end planned_end planned]:
  obtains
    "askQuestion_returns c s t q code fe reply = (s\<lparr>interviewState := ENDED, isLoading := False\<rparr>, [])"
  | out where "callInterviewerLlm (effectiveActionCode (askQuestion_resolve (interviewPlan c) t q code fe)) reply = Some out"
      and "out_type out = follow_up"
      and "effectiveActionCode (askQuestion_resolve (interviewPlan c) t q code fe) \<noteq> END_INTERVIEW"
      and "currentFollowUpStreak c < MAX_FOLLOW_UP_STREAK"
      and "askQuestion_returns c s t q code fe reply =
             (digression c s t q (effectiveActionCode (askQuestion_resolve (interviewPlan c) t q code fe))
                (out_text out), [])"
  | out where "callInterviewerLlm (effectiveActionCode (askQuestion_resolve (interviewPlan c) t q code fe)) reply = Some out"
      and "out_type out = follow_up"
      and "effectiveActionCode (askQuestion_resolve (interviewPlan c) t q code fe) \<noteq> END_INTERVIEW"
      and "\<not> currentFollowUpStreak c < MAX_FOLLOW_UP_STREAK"
      and "hasQuestion (interviewPlan c) t (q + 1)"
      and "askQuestion_returns c s t q code fe reply =
             ((overridden s)\<lparr>currentTopicIndex := t, currentQuestionIndex := q + 1,
                              isLoading := False\<rparr>,
              [InterviewerCall c t (q + 1) NEXT_QUESTION False])"
  | out where "callInterviewerLlm (effectiveActionCode (askQuestion_resolve (interviewPlan c) t q code fe)) reply = Some out"
      and "out_type out = follow_up"
      and "effectiveActionCode (askQuestion_resolve (interviewPlan c) t q code fe) \<noteq> END_INTERVIEW"
      and "\<not> currentFollowUpStreak c < MAX_FOLLOW_UP_STREAK"
      and "\<not> hasQuestion (interviewPlan c) t (q + 1)"
      and "hasTopic (interviewPlan c) (t + 1)"
      and "askQuestion_returns c s t q code fe reply =
             ((overridden s)\<lparr>currentTopicIndex := t + 1, currentQuestionIndex := 0,
                              isLoading := False\<rparr>,
              [InterviewerCall c (t + 1) 0 NEXT_TOPIC False])"
  | out where "callInterviewerLlm (effectiveActionCode (askQuestion_resolve (interviewPlan c) t q code fe)) reply = Some out"
      and "out_type out = follow_up"
      and "effectiveActionCode (askQuestion_resolve (interviewPlan c) t q code fe) \<noteq> END_INTERVIEW"
      and "\<not> currentFollowUpStreak c < MAX_FOLLOW_UP_STREAK"
      and "\<not> hasQuestion (interviewPlan c) t (q + 1)"
      and "\<not> hasTopic (interviewPlan c) (t + 1)"
      and "askQuestion_returns c s t q code fe reply =
             ((overridden s)\<lparr>interviewState := ENDED\<rparr>, [ClosingCall])"
  | out where "callInterviewerLlm (effectiveActionCode (askQuestion_resolve (interviewPlan c) t q code fe)) reply = Some out"
      and "\<not> (out_type out = follow_up \<and>
              effectiveActionCode (askQuestion_resolve (interviewPlan c) t q code fe) \<noteq> END_INTERVIEW)"
      and "endInterview (askQuestion_resolve (interviewPlan c) t q code fe) \<or>
           effectiveActionCode (askQuestion_resolve (interviewPlan c) t q code fe) = END_INTERVIEW"
      and "askQuestion_returns c s t q code fe reply =
             ((plannedOutcome (askQuestion_resolve (interviewPlan c) t q code fe) s)
                \<lparr>isLoading := isLoading s\<rparr>, [ClosingCall])"
  | out where "callInterviewerLlm (effectiveActionCode (askQuestion_resolve (interviewPlan c) t q code fe)) reply = Some out"
      and "\<not> (out_type out = follow_up \<and>
              effectiveActionCode (askQuestion_resolve (interviewPlan c) t q code fe) \<noteq> END_INTERVIEW)"
      and "\<not> (endInterview (askQuestion_resolve (interviewPlan c) t q code fe) \<or>
              effectiveActionCode (askQuestion_resolve (interviewPlan c) t q code fe) = END_INTERVIEW)"
      and "askQuestion_returns c s t q code fe reply =
             (plannedOutcome (askQuestion_resolve (interviewPlan c) t q code fe) s, [])"
proof -
  let ?r = "askQuestion_resolve (interviewPlan c) t q code fe"
  note ret = askQuestion_returns_level [of c s t q code fe reply]
  show ?thesis
  proof (cases "callInterviewerLlm (effectiveActionCode ?r) reply")
    case None
    then have "askQuestion_returns c s t q code fe reply =
        (s\<lparr>interviewState := ENDED, isLoading := False\<rparr>, [])"
      by (simp add: ret Let_def)
    then show ?thesis by (rule that(1))
  next
    case (Some out)
    show ?thesis
    proof (cases "out_type out = follow_up \<and> effectiveActionCode ?r \<noteq> END_INTERVIEW")
      case False
      then have nf: "(out_type out = follow_up \<and> effectiveActionCode ?r \<noteq> END_INTERVIEW) = False"
        by simp
      show ?thesis
      proof (cases "endInterview ?r \<or> effectiveActionCode ?r = END_INTERVIEW")
        case True
        then have e: "(endInterview ?r \<or> effectiveActionCode ?r = END_INTERVIEW) = True" by simp
        have "askQuestion_returns c s t q code fe reply =
            ((plannedOutcome ?r s)\<lparr>isLoading := isLoading s\<rparr>, [ClosingCall])"
          by (simp only: ret Let_def Some option.case nf e if_False if_True)
        with Some False True show ?thesis by (intro that(6))
      next
        case ne: False
        then have e: "(endInterview ?r \<or> effectiveActionCode ?r = END_INTERVIEW) = False" by simp
        have "askQuestion_returns c s t q code fe reply = (plannedOutcome ?r s, [])"
          by (simp only: ret Let_def Some option.case nf e if_False if_True)
        with Some False ne show ?thesis by (intro that(7))
      qed
    next
      case True
      then have fu: "out_type out = follow_up" "effectiveActionCode ?r \<noteq> END_INTERVIEW"
        and f: "(out_type out = follow_up \<and> effectiveActionCode ?r \<noteq> END_INTERVIEW) = True"
        by simp_all
      show ?thesis
      proof (cases "currentFollowUpStreak c < MAX_FOLLOW_UP_STREAK")
        case True
        have "askQuestion_returns c s t q code fe reply =
            (digression c s t q (effectiveActionCode ?r) (out_text out), [])"
          using True by (simp only: ret Let_def Some option.case f if_True)
        with Some fu True show ?thesis by (intro that(2))
      next
        case lim: False
        show ?thesis
        proof (cases "hasQuestion (interviewPlan c) t (q + 1)")
          case True
          have "askQuestion_returns c s t q code fe reply =
              ((overridden s)\<lparr>currentTopicIndex := t, currentQuestionIndex := q + 1,
                  isLoading := False\<rparr>, [InterviewerCall c t (q + 1) NEXT_QUESTION False])"
            using lim True by (simp only: ret Let_def Some option.case f if_True if_False)
          with Some fu lim True show ?thesis by (intro that(3))
        next
          case nq: False
          show ?thesis
          proof (cases "hasTopic (interviewPlan c) (t + 1)")
            case True
            have "askQuestion_returns c s t q code fe reply =
                ((overridden s)\<lparr>currentTopicIndex := t + 1, currentQuestionIndex := 0,
                    isLoading := False\<rparr>, [InterviewerCall c (t + 1) 0 NEXT_TOPIC False])"
              using lim nq True by (simp only: ret Let_def Some option.case f if_True if_False)
            with Some fu lim nq True show ?thesis by (intro that(4))
          next
            case False
            have "askQuestion_returns c s t q code fe reply =
                ((overridden s)\<lparr>interviewState := ENDED\<rparr>, [ClosingCall])"
              using lim nq False by (simp only: ret Let_def Some option.case f if_True if_False)
            with Some fu lim nq False show ?thesis by (intro that(5))
          qed
        qed
      qed
    qed
  qed
qed

lemma askQuestion_returns_streak:
  assumes "streakBound c s" and "currentFollowUpStreak s \<le> MAX_FOLLOW_UP_STREAK"
  shows "streakInvariant (askQuestion_returns c s t q code fe reply)"
proof (rule askQuestion_returns_cases [where c = c and s = s and t = t and q = q and code = code
      and fe = fe and reply = reply], goal_cases)
  case 1
  with assms show ?case by (simp add: streakInvariant_def)
next
  case (2 out)
  with assms show ?case
    by (auto simp: streakInvariant_def digression_fields streakBound_def)
next
  case (3 out)
  then show ?case
    by (simp add: streakInvariant_def overridden_fields streakBound_def)
next
  case (4 out)
  then show ?case
    by (simp add: streakInvariant_def overridden_fields streakBound_def)
next
  case (5 out)
  then show ?case
    by (simp add: streakInvariant_def overridden_fields)
next
  case (6 out)
  then show ?case
    by (simp add: streakInvariant_def plannedOutcome_fields)
next
  case (7 out)
  then show ?case
    by (simp add: streakInvariant_def plannedOutcome_fields)
qed

lemma submit_returns_calls:
  "\<exists>s' calls. handleSubmitAnswer_returns c s mon = (s', calls) \<and>
     currentFollowUpStreak s' = currentFollowUpStreak s \<and>
     (calls = [] \<or> (\<exists>t q code. calls = [InterviewerCall c t q code False]))"
  unfolding handleSubmitAnswer_returns_def askQuestion_call_def Let_def
  by (simp split: monitorReply.split option.split)

lemma submit_returns_streak:
  assumes "streakBound c s" and "currentFollowUpStreak s \<le> MAX_FOLLOW_UP_STREAK"
  shows "streakInvariant (handleSubmitAnswer_returns c s mon)"
proof -
  from submit_returns_calls [of c s mon]
  obtain s' calls where "handleSubmitAnswer_returns c s mon = (s', calls)"
    and "currentFollowUpStreak s' = currentFollowUpStreak s"
    and "calls = [] \<or> (\<exists>t q code. calls = [InterviewerCall c t q code False])"
    by blast
  with assms show ?thesis
    by (auto simp: streakInvariant_def streakBound_def)
qed

lemma step_streakInvariant:
  assumes "streakInvariant sys" and "startsChain e \<longrightarrow> snd sys = []"
  shows "streakInvariant (step sys e)"
proof -
  obtain s calls where sys: "sys = (s, calls)" by (cases sys)
  from assms(1) have le: "currentFollowUpStreak s \<le> MAX_FOLLOW_UP_STREAK"
    and len: "length calls \<le> 1" and cb: "\<forall>p\<in>set calls. callBound s p"
    by (simp_all add: sys streakInvariant_def)
  show ?thesis
  proof (cases e)
    case (StartInterview d)
    with assms(2) have "calls = []" by (simp add: sys)
    with le show ?thesis
      by (simp add: sys StartInterview handleStartInterview_call_def streakInvariant_def)
  next
    case PlanningComplete
    with assms(2) have "calls = []" by (simp add: sys)
    with le show ?thesis
      by (simp add: sys PlanningComplete planningCompleteEffect_call_def askQuestion_call_def
          streakInvariant_def streakBound_def)
  next
    case (SubmitAnswer a)
    with assms(2) have "calls = []" by (simp add: sys)
    with le show ?thesis
      by (simp add: sys SubmitAnswer submit_call streakInvariant_def streakBound_def)
  next
    case (Returns k reply)
    show ?thesis
    proof (cases "k < length calls")
      case False
      with assms(1) show ?thesis by (simp add: sys Returns)
    next
      case True
      with len obtain p where calls: "calls = [p]" and k: "k = 0"
        by (cases calls) auto
      from cb have bound: "callBound s p" by (simp add: calls)
      show ?thesis
      proof (cases "returned p s reply")
        case None
        with assms(1) show ?thesis by (simp add: sys Returns calls k)
      next
        case (Some res)
        obtain s' new where res: "res = (s', new)" by (cases res)
        have st: "step sys e = (s', new)"
          by (simp add: sys Returns calls k Some res)
        have "streakInvariant res"
        proof (cases p)
          case PlannerCall
          with Some le show ?thesis
            by (cases reply)
               (auto simp: streakInvariant_def handleStartInterview_returns_def Let_def
                  split: plannerReply.splits)
        next
          case (MonitorCall c)
          with Some bound le show ?thesis
            by (cases reply) (auto simp: submit_returns_streak)
        next
          case (InterviewerCall c t q code fe)
          with Some bound le show ?thesis
            by (cases reply) (auto simp: askQuestion_returns_streak)
        next
          case ClosingCall
          with Some le show ?thesis
            by (cases reply) (auto simp: streakInvariant_def)
        qed
        then show ?thesis by (simp add: st res)
      qed
    qed
  qed
qed

lemma run_streakInvariant:
  assumes "streakInvariant sys" and "serial sys es"
  shows "streakInvariant (run sys es)"
  using assms
proof (induction es arbitrary: sys)
  case Nil
  then show ?case by simp
next
  case (Cons e es)
  then show ?case by (simp add: step_streakInvariant)
qed

lemma serial_streak:
  assumes "serial (s, []) es" and "currentFollowUpStreak s \<le> MAX_FOLLOW_UP_STREAK"
  shows "currentFollowUpStreak (fst (run (s, []) es)) \<le> MAX_FOLLOW_UP_STREAK"
proof -
  from assms(2) have "streakInvariant (s, [])" by (simp add: streakInvariant_def)
  from run_streakInvariant [OF this assms(1)] show ?thesis
    by (simp add: streakInvariant_def)
qed

subsection \<open>The session log along a run\<close>

lemma askQuestion_returns_log:
  "interviewLog (fst (askQuestion_returns c s t q code fe reply)) = interviewLog s \<and>
   awaitingAssessment (snd (askQuestion_returns c s t q code fe reply)) = 0"
proof (rule askQuestion_returns_cases [where c = c and s = s and t = t and q = q and code = code
        and fe = fe and reply = reply], goal_cases)
  case 1
  then show ?case by (simp add: awaitingAssessment_def)
next
  case (2 out)
  then show ?case by (simp add: awaitingAssessment_def digression_def)
next
  case (3 out)
  then show ?case by (simp add: awaitingAssessment_def overridden_def)
next
  case (4 out)
  then show ?case by (simp add: awaitingAssessment_def overridden_def)
next
  case (5 out)
  then show ?case by (simp add: awaitingAssessment_def overridden_def)
next
  case (6 out)
  then show ?case by (simp add: awaitingAssessment_def plannedOutcome_def Let_def)
next
  case (7 out)
  then show ?case by (simp add: awaitingAssessment_def plannedOutcome_def Let_def)
qed

lemma submit_returns_log:
  "interviewLog (fst (handleSubmitAnswer_returns c s (MonitorReturns m))) =
     interviewLog s @ [\<lparr>monitor = m, entryType = (if isFollowUpActive c then follow_up else planned)\<rparr>]"
  "awaitingAssessment (snd (handleSubmitAnswer_returns c s mon)) = 0"
  "interviewLog (fst (handleSubmitAnswer_returns c s MonitorRejects)) = interviewLog s"
  unfolding handleSubmitAnswer_returns_def askQuestion_call_def Let_def awaitingAssessment_def
  by (simp_all split: monitorReply.split option.split)

lemma awaitingAssessment_remove:
  assumes "k < length calls"
  shows "awaitingAssessment (take k calls @ drop (Suc k) calls @ new) + (if isMonitorCall (calls ! k) then 1 else 0) =
         awaitingAssessment calls + awaitingAssessment new"
proof -
  from id_take_nth_drop [OF assms]
  have "filter isMonitorCall calls =
      filter isMonitorCall (take k calls @ calls ! k # drop (Suc k) calls)"
    by (rule arg_cong)
  then have "awaitingAssessment calls =
      awaitingAssessment (take k calls) + (if isMonitorCall (calls ! k) then 1 else 0) +
      awaitingAssessment (drop (Suc k) calls)"
    unfolding awaitingAssessment_def by simp
  then show ?thesis by (simp add: awaitingAssessment_def)
qed


lemma no_monitor_call:
  assumes "monitorCallAt calls k = None"
  shows "turnRecords (s, calls) (Returns k reply) = [] \<and>
         \<not> failedAssessment (s, calls) (Returns k reply)"
proof (cases reply)
  case (MonitorReplies mon)
  with assms show ?thesis by (cases mon) simp_all
qed simp_all

lemma returned_log:
  assumes "k < length calls" and "returned (calls ! k) s reply = Some (s', new)"
  shows "interviewLog s' = interviewLog s @ turnRecords (s, calls) (Returns k reply) \<and>
         awaitingAssessment new = 0 \<and>
         (if isMonitorCall (calls ! k) then 1 else 0) =
           length (turnRecords (s, calls) (Returns k reply)) +
           (if failedAssessment (s, calls) (Returns k reply) then 1 else (0::nat))"
proof (cases "calls ! k")
  case PlannerCall
  with assms show ?thesis
    by (cases reply)
       (auto simp: handleStartInterview_returns_def Let_def awaitingAssessment_def monitorCallAt_def
          split: plannerReply.splits monitorReply.splits)
next
  case (MonitorCall c)
  show ?thesis
  proof (cases reply)
    case (MonitorReplies mon)
    from assms MonitorCall MonitorReplies
    have "handleSubmitAnswer_returns c s mon = (s', new)" by simp
    then have s': "s' = fst (handleSubmitAnswer_returns c s mon)"
      and new: "new = snd (handleSubmitAnswer_returns c s mon)"
      by simp_all
    have at: "monitorCallAt calls k = Some c"
      using assms(1) MonitorCall by (simp add: monitorCallAt_def)
    show ?thesis
    proof (cases mon)
      case MonitorRejects
      show ?thesis
        unfolding s' new MonitorReplies
        using submit_returns_log(2) [of c s mon] submit_returns_log(3) [of c s]
        by (simp add: MonitorRejects MonitorCall at)
    next
      case (MonitorReturns m)
      show ?thesis
        unfolding s' new MonitorReplies
        using submit_returns_log(1) [of c s m] submit_returns_log(2) [of c s mon]
        by (simp add: MonitorReturns MonitorCall at)
    qed
  qed (use assms MonitorCall in simp_all)
next
  case (InterviewerCall c t q code fe)
  show ?thesis
  proof (cases reply)
    case (InterviewerReplies r)
    from assms InterviewerCall InterviewerReplies
    have "askQuestion_returns c s t q code fe r = (s', new)" by simp
    then have s': "s' = fst (askQuestion_returns c s t q code fe r)"
      and new: "new = snd (askQuestion_returns c s t q code fe r)"
      by simp_all
    show ?thesis
      unfolding s' new InterviewerReplies
      using askQuestion_returns_log [of c s t q code fe r]
      by (simp add: InterviewerCall)
  qed (use assms InterviewerCall in simp_all)
next
  case ClosingCall
  with assms show ?thesis
    by (cases reply) (auto simp: awaitingAssessment_def monitorCallAt_def split: monitorReply.splits)
qed

lemma step_log:
  assumes "\<not> isStartInterview e"
  shows "interviewLog (fst (step sys e)) = interviewLog (fst sys) @ turnRecords sys e \<and>
         (if answeredTurn sys e then 1 else 0) + awaitingAssessment (snd sys) =
           length (turnRecords sys e) + (if failedAssessment sys e then 1 else 0) +
           awaitingAssessment (snd (step sys e))"
proof -
  obtain s calls where sys: "sys = (s, calls)" by (cases sys)
  show ?thesis
  proof (cases e)
    case (StartInterview d)
    with assms show ?thesis by simp
  next
    case PlanningComplete
    then show ?thesis
      by (simp add: sys planningCompleteEffect_call_def askQuestion_call_def awaitingAssessment_def)
  next
    case (SubmitAnswer a)
    then show ?thesis
      by (simp add: sys submit_call answered_def awaitingAssessment_def)
  next
    case (Returns k reply)
    show ?thesis
    proof (cases "k < length calls")
      case False
      then show ?thesis
        using no_monitor_call [of calls k s reply]
        by (simp add: sys Returns monitorCallAt_def)
    next
      case True
      show ?thesis
      proof (cases "returned (calls ! k) s reply")
        case None
        have "turnRecords (s, calls) (Returns k reply) = [] \<and>
              \<not> failedAssessment (s, calls) (Returns k reply)"
        proof (cases "monitorCallAt calls k")
          case none: None
          then show ?thesis by (rule no_monitor_call)
        next
          case (Some c)
          with True have "calls ! k = MonitorCall c"
            by (simp add: monitorCallAt_def split: call.splits)
          with None show ?thesis by (cases reply) simp_all
        qed
        with None True show ?thesis by (simp add: sys Returns)
      next
        case (Some res)
        obtain s' new where res: "res = (s', new)" by (cases res)
        from returned_log [OF True Some [unfolded res]] awaitingAssessment_remove [OF True, of new]
        show ?thesis
          by (simp add: sys Returns True Some res)
      qed
    qed
  qed
qed

lemma run_log:
  assumes "\<forall>e\<in>set es. \<not> isStartInterview e"
  shows "interviewLog (fst (run sys es)) = interviewLog (fst sys) @ recordsOf sys es \<and>
         answeredTurns sys es + awaitingAssessment (snd sys) =
           length (recordsOf sys es) + failedAssessments sys es +
           awaitingAssessment (snd (run sys es))"
  using assms
proof (induction es arbitrary: sys)
  case Nil
  then show ?case by simp
next
  case (Cons e es)
  from Cons.prems have e: "\<not> isStartInterview e" and es: "\<forall>x\<in>set es. \<not> isStartInterview x"
    by simp_all
  from step_log [OF e, of sys] Cons.IH [OF es, of "step sys e"]
  show ?case by simp
qed

subsection \<open>Forced and planned replies, and the resumption after a follow-up\<close>

lemma askQuestion_returns_forced:
  assumes "\<not> currentFollowUpStreak c < MAX_FOLLOW_UP_STREAK"
    and "callInterviewerLlm (effectiveActionCode (askQuestion_resolve (interviewPlan c) t q code fe))
           reply = Some out"
    and "out_type out = follow_up"
  shows "askQuestion_returns c s t q code fe reply =
     (if hasQuestion (interviewPlan c) t (q + 1) then
        ((overridden s)\<lparr>currentTopicIndex := t, currentQuestionIndex := q + 1,
                        isLoading := False\<rparr>,
         [InterviewerCall c t (q + 1) NEXT_QUESTION False])
      else if hasTopic (interviewPlan c) (t + 1) then
        ((overridden s)\<lparr>currentTopicIndex := t + 1, currentQuestionIndex := 0,
                        isLoading := False\<rparr>,
         [InterviewerCall c (t + 1) 0 NEXT_TOPIC False])
      else ((overridden s)\<lparr>interviewState := ENDED\<rparr>, [ClosingCall]))"
proof -
  have "effectiveActionCode (askQuestion_resolve (interviewPlan c) t q code fe) \<noteq> END_INTERVIEW"
    using assms(2,3) by (rule callInterviewerLlm_follow_up)
  with assms(3) have fu: "(out_type out = follow_up \<and>
      effectiveActionCode (askQuestion_resolve (interviewPlan c) t q code fe) \<noteq> END_INTERVIEW) = True"
    by simp
  from assms(1) have lim: "(currentFollowUpStreak c < MAX_FOLLOW_UP_STREAK) = False"
    by simp
  show ?thesis
    by (simp only: askQuestion_returns_level [of c s t q code fe reply] Let_def assms(2)
        option.case fu lim if_True if_False)
qed

lemma askQuestion_returns_planned_reply:
  assumes "reply = InterviewerReturns ty tx" and "ty \<noteq> ''follow-up''"
    and "effectiveActionCode (askQuestion_resolve (interviewPlan c) t q code fe) = NEXT_QUESTION \<or>
         effectiveActionCode (askQuestion_resolve (interviewPlan c) t q code fe) = NEXT_TOPIC"
  shows "askQuestion_returns c s t q code fe reply =
           (plannedOutcome (askQuestion_resolve (interviewPlan c) t q code fe) s, [])"
proof -
  let ?r = "askQuestion_resolve (interviewPlan c) t q code fe"
  have out: "callInterviewerLlm (effectiveActionCode ?r) reply =
      Some \<lparr>out_type = planned, out_text = tx\<rparr>"
    using assms(1,2) by (simp add: callInterviewerLlm_def)
  have nf: "(out_type \<lparr>out_type = planned, out_text = tx\<rparr> = follow_up \<and>
      effectiveActionCode ?r \<noteq> END_INTERVIEW) = False"
    by simp
  from assms(3) have "\<not> (endInterview ?r \<or> effectiveActionCode ?r = END_INTERVIEW)"
    using resolve_endInterview [of "interviewPlan c" t q code fe] by auto
  then have ne: "(endInterview ?r \<or> effectiveActionCode ?r = END_INTERVIEW) = False"
    by simp
  show ?thesis
    by (simp only: askQuestion_returns_level [of c s t q code fe reply] Let_def out option.case
        nf ne if_False)
qed

lemma askQuestion_returns_forced_fields:
  assumes "\<not> currentFollowUpStreak c < MAX_FOLLOW_UP_STREAK"
    and "callInterviewerLlm (effectiveActionCode (askQuestion_resolve (interviewPlan c) t q code fe))
           reply = Some out"
    and "out_type out = follow_up"
    and "hasQuestion (interviewPlan c) t (q + 1) \<or> hasTopic (interviewPlan c) (t + 1)"
  shows "currentQuestionAttempts (fst (askQuestion_returns c s t q code fe reply)) =
           currentQuestionAttempts s"
    and "interviewState (fst (askQuestion_returns c s t q code fe reply)) = interviewState s"
    and "\<not> isLoading (fst (askQuestion_returns c s t q code fe reply))"
    and "currentTopicIndex (fst (askQuestion_returns c s t q code fe reply)) =
           (if hasQuestion (interviewPlan c) t (q + 1) then t else t + 1)"
    and "currentQuestionIndex (fst (askQuestion_returns c s t q code fe reply)) =
           (if hasQuestion (interviewPlan c) t (q + 1) then q + 1 else 0)"
    and "snd (askQuestion_returns c s t q code fe reply) =
           (if hasQuestion (interviewPlan c) t (q + 1)
            then [InterviewerCall c t (q + 1) NEXT_QUESTION False]
            else [InterviewerCall c (t + 1) 0 NEXT_TOPIC False])"
  using assms(4)
  unfolding askQuestion_returns_forced [OF assms(1-3)]
  by (auto simp: overridden_fields)








subsection \<open>Evaluating example runs\<close>

lemmas run_defs = serialRun_def limitRun_def forcedRun_def openingEvents_def answerEvents_def followUp_def asPlanned_def
  assessed_def assessment_def examplePlan_def threeTopicPlan_def initialState_def exampleSession_def
  submit_call exampleAnswer_given handleSubmitAnswer_returns_def askQuestion_call_def
  askQuestion_returns_def askQuestion_resolve_def callInterviewerLlm_def hasQuestion_def hasTopic_def
  answerContext_def handleStartInterview_call_def handleStartInterview_returns_def planAccepted_def
  planningCompleteEffect_call_def Let_def firstQuestion_def trim_def utf16_def isSpace_def

subsection \<open>The claims\<close>

text \<open>
  C3. When the questions of the topic are exhausted at the position and the plan has no
  further topic, the first part of \<open>askQuestion\<close> resolves every requested action
  code to END_INTERVIEW with \<open>endInterview\<close> set, and the call leaves the session
  ENDED whatever the interviewer replies.
\<close>

theorem exhausted_last_topic_ends:
  assumes "interviewPlan c = Some p"
    and "topicIdx < length (topics p)"
    and "length (questions (topics p ! topicIdx)) \<le> questionIdx"
    and "length (topics p) \<le> topicIdx + 1"
  shows "effectiveActionCode
           (askQuestion_resolve (interviewPlan c) topicIdx questionIdx code forceEnd) = END_INTERVIEW \<and>
         endInterview (askQuestion_resolve (interviewPlan c) topicIdx questionIdx code forceEnd) \<and>
         interviewState (askQuestion c s topicIdx questionIdx code forceEnd llm i) = ENDED"
proof -
  let ?r = "askQuestion_resolve (interviewPlan c) topicIdx questionIdx code forceEnd"
  have eff: "effectiveActionCode ?r = END_INTERVIEW"
    using assms by (simp add: askQuestion_resolve_def hasTopic_def Let_def)
  have fin: "endInterview ?r"
    using assms by (simp add: askQuestion_resolve_def hasTopic_def Let_def)
  from eff have "interviewState (askQuestion c s topicIdx questionIdx code forceEnd llm i) = ENDED"
    by (rule askQuestion_end_reply)
  with eff fin show ?thesis by simp
qed

theorem exhausted_last_topic_ends_witness:
  "interviewPlan exampleSession = Some examplePlan \<and>
   (1::nat) < length (topics examplePlan) \<and>
   length (questions (topics examplePlan ! 1)) \<le> (3::nat) \<and>
   length (topics examplePlan) \<le> 1 + 1 \<and>
   effectiveActionCode
     (askQuestion_resolve (interviewPlan exampleSession) 1 3 REPEAT_QUESTION False) = END_INTERVIEW \<and>
   endInterview (askQuestion_resolve (interviewPlan exampleSession) 1 3 REPEAT_QUESTION False) \<and>
   interviewState
     (askQuestion exampleSession exampleSession 1 3 REPEAT_QUESTION False followUpReplies 0) = ENDED"
proof -
  have h1: "interviewPlan exampleSession = Some examplePlan"
    by (simp add: exampleSession_fields)
  have h2: "(1::nat) < length (topics examplePlan)" by (simp add: examplePlan_shape)
  have h3: "length (questions (topics examplePlan ! 1)) \<le> (3::nat)" by (simp add: examplePlan_shape)
  have h4: "length (topics examplePlan) \<le> 1 + 1" by (simp add: examplePlan_shape)
  show ?thesis
    using exhausted_last_topic_ends [OF h1 h2 h3 h4, of REPEAT_QUESTION False exampleSession followUpReplies 0]
      h1 h2 h3 h4 by simp
qed

text \<open>
  C1 (as stated, refuted). The claim says that a request for NEXT_TOPIC at a position
  whose topic still has questions keeps the conversation in that topic. In the example
  session the first topic has a second question; the monitor answers NEXT_TOPIC to the
  first one, and the session moves to the second topic.
\<close>

theorem next_topic_leaves_open_topic_counterexample:
  "answerGiven exampleAnswer \<and>
   hasQuestion (interviewPlan exampleSession) (currentTopicIndex exampleSession)
     (currentQuestionIndex exampleSession) \<and>
   hasQuestion (interviewPlan exampleSession) (currentTopicIndex exampleSession)
     (currentQuestionIndex exampleSession + 1) \<and>
   actionCode (assessment NEXT_TOPIC) = NEXT_TOPIC \<and>
   currentTopicIndex
     (handleSubmitAnswer exampleSession exampleAnswer (MonitorReturns (assessment NEXT_TOPIC))
        plannedReplies) \<noteq> currentTopicIndex exampleSession"
proof -
  have q: "hasQuestion (interviewPlan exampleSession) (currentTopicIndex exampleSession)
     (currentQuestionIndex exampleSession)"
    by (simp add: exampleSession_fields examplePlan_hasQuestion)
  have r: "askQuestion_resolve (Some examplePlan) (Suc 0) 0 NEXT_TOPIC False =
     \<lparr>plannedTopicName = ''Node.js'', plannedQuestionText = ''What is Node.js?'',
      effectiveActionCode = NEXT_QUESTION, endInterview = False,
      nextStateTopicIndex = Suc 0, nextStateQuestionIndex = 0\<rparr>"
    by (simp add: askQuestion_resolve_def hasTopic_def examplePlan_def Let_def)
  have "handleSubmitAnswer exampleSession exampleAnswer (MonitorReturns (assessment NEXT_TOPIC))
        plannedReplies =
        askQuestion exampleSession (logged exampleSession (assessment NEXT_TOPIC)) 1 0 NEXT_TOPIC
          False plannedReplies 0"
    by (simp add: submit_planned [OF exampleAnswer_given _ _ _ q] exampleSession_fields assessment_def)
  also have "\<dots> = plannedOutcome (askQuestion_resolve (Some examplePlan) 1 0 NEXT_TOPIC False)
      (logged exampleSession (assessment NEXT_TOPIC))"
    by (simp add: askQuestion_planned_reply [of plannedReplies 0 "''planned''" "''Next, please.''"]
        plannedReplies_def exampleSession_fields)
  finally show ?thesis
    by (simp add: r plannedOutcome_def exampleAnswer_given exampleSession_fields
        examplePlan_hasQuestion assessment_def)
qed

text \<open>
  C1 (amended). When \<open>askQuestion\<close> is called with NEXT_TOPIC for a position that
  holds a question, the effective action is NEXT_QUESTION and the question asked is the
  one at that position, in the topic of the call. \<open>handleSubmitAnswer\<close>, however,
  answers a monitor's NEXT_TOPIC by calling \<open>askQuestion\<close> at the first question of
  the following topic: when the interviewer carries out the planned action the session
  moves there if that question exists, and ends if there is no following topic, whether
  or not the current topic has questions left.
\<close>

theorem next_topic_at_open_position:
  "(ip = Some p \<and> topicIdx < length (topics p) \<and>
    questionIdx < length (questions (topics p ! topicIdx)) \<longrightarrow>
      askQuestion_resolve ip topicIdx questionIdx NEXT_TOPIC False =
        \<lparr>plannedTopicName = name (topics p ! topicIdx),
         plannedQuestionText = questions (topics p ! topicIdx) ! questionIdx,
         effectiveActionCode = NEXT_QUESTION, endInterview = False,
         nextStateTopicIndex = topicIdx, nextStateQuestionIndex = questionIdx\<rparr>) \<and>
   (answerGiven a \<and> \<not> isLoading s \<and> interviewState s = IN_PROGRESS \<and> \<not> isFollowUpActive s \<and>
    hasQuestion (interviewPlan s) (currentTopicIndex s) (currentQuestionIndex s) \<and>
    actionCode m = NEXT_TOPIC \<and> llm 0 = InterviewerReturns ty tx \<and> ty \<noteq> ''follow-up'' \<longrightarrow>
      (let s' = handleSubmitAnswer s a (MonitorReturns m) llm in
       if hasQuestion (interviewPlan s) (currentTopicIndex s + 1) 0
       then interviewState s' = IN_PROGRESS \<and> currentTopicIndex s' = currentTopicIndex s + 1 \<and>
            currentQuestionIndex s' = 0
       else if \<not> hasTopic (interviewPlan s) (currentTopicIndex s + 1)
       then interviewState s' = ENDED
       else True))"
proof (intro conjI impI)
  assume "ip = Some p \<and> topicIdx < length (topics p) \<and>
    questionIdx < length (questions (topics p ! topicIdx))"
  then show "askQuestion_resolve ip topicIdx questionIdx NEXT_TOPIC False =
        \<lparr>plannedTopicName = name (topics p ! topicIdx),
         plannedQuestionText = questions (topics p ! topicIdx) ! questionIdx,
         effectiveActionCode = NEXT_QUESTION, endInterview = False,
         nextStateTopicIndex = topicIdx, nextStateQuestionIndex = questionIdx\<rparr>"
    by (simp add: askQuestion_resolve_def hasTopic_def Let_def)
next
  assume h: "answerGiven a \<and> \<not> isLoading s \<and> interviewState s = IN_PROGRESS \<and> \<not> isFollowUpActive s \<and>
    hasQuestion (interviewPlan s) (currentTopicIndex s) (currentQuestionIndex s) \<and>
    actionCode m = NEXT_TOPIC \<and> llm 0 = InterviewerReturns ty tx \<and> ty \<noteq> ''follow-up''"
  let ?r = "askQuestion_resolve (interviewPlan s) (currentTopicIndex s + 1) 0 NEXT_TOPIC False"
  have eq: "handleSubmitAnswer s a (MonitorReturns m) llm = plannedOutcome ?r (logged s m)"
    using h by (simp add: submit_planned askQuestion_planned_reply)
  have st: "interviewState (logged s m) = IN_PROGRESS"
    using h by (simp add: logged_def)
  show "let s' = handleSubmitAnswer s a (MonitorReturns m) llm in
       if hasQuestion (interviewPlan s) (currentTopicIndex s + 1) 0
       then interviewState s' = IN_PROGRESS \<and> currentTopicIndex s' = currentTopicIndex s + 1 \<and>
            currentQuestionIndex s' = 0
       else if \<not> hasTopic (interviewPlan s) (currentTopicIndex s + 1)
       then interviewState s' = ENDED
       else True"
  proof (cases "hasQuestion (interviewPlan s) (currentTopicIndex s + 1) 0")
    case True
    then have "effectiveActionCode ?r = NEXT_QUESTION \<and> \<not> endInterview ?r \<and>
        nextStateTopicIndex ?r = currentTopicIndex s + 1 \<and> nextStateQuestionIndex ?r = 0"
      by (auto simp: askQuestion_resolve_def hasTopic_def hasQuestion_def Let_def split: option.splits)
    with True st show ?thesis
      by (simp add: eq plannedOutcome_def Let_def)
  next
    case False
    show ?thesis
    proof (cases "hasTopic (interviewPlan s) (currentTopicIndex s + 1)")
      case True
      with False show ?thesis by (simp add: Let_def)
    next
      case nt: False
      then have "effectiveActionCode ?r = END_INTERVIEW"
        by (simp add: askQuestion_resolve_def Let_def)
      with False nt show ?thesis
        by (simp add: eq plannedOutcome_def Let_def)
    qed
  qed
qed


theorem next_topic_at_open_position_witness:
  "Some examplePlan = Some examplePlan \<and> (1::nat) < length (topics examplePlan) \<and>
   (0::nat) < length (questions (topics examplePlan ! 1)) \<and>
   askQuestion_resolve (Some examplePlan) 1 0 NEXT_TOPIC False =
     \<lparr>plannedTopicName = name (topics examplePlan ! 1),
      plannedQuestionText = questions (topics examplePlan ! 1) ! 0,
      effectiveActionCode = NEXT_QUESTION, endInterview = False,
      nextStateTopicIndex = 1, nextStateQuestionIndex = 0\<rparr> \<and>
   answerGiven exampleAnswer \<and> \<not> isLoading exampleSession \<and>
   interviewState exampleSession = IN_PROGRESS \<and> \<not> isFollowUpActive exampleSession \<and>
   hasQuestion (interviewPlan exampleSession) (currentTopicIndex exampleSession)
     (currentQuestionIndex exampleSession) \<and>
   hasQuestion (interviewPlan exampleSession) (currentTopicIndex exampleSession + 1) 0 \<and>
   interviewState
     (handleSubmitAnswer exampleSession exampleAnswer (MonitorReturns (assessment NEXT_TOPIC))
        plannedReplies) = IN_PROGRESS \<and>
   currentTopicIndex
     (handleSubmitAnswer exampleSession exampleAnswer (MonitorReturns (assessment NEXT_TOPIC))
        plannedReplies) = 1 \<and>
   currentQuestionIndex
     (handleSubmitAnswer exampleSession exampleAnswer (MonitorReturns (assessment NEXT_TOPIC))
        plannedReplies) = 0"
  using next_topic_at_open_position [of "Some examplePlan" examplePlan 1 0 exampleAnswer
      exampleSession "assessment NEXT_TOPIC" plannedReplies "''planned''" "''Next, please.''"]
  by (simp add: exampleAnswer_given exampleSession_fields examplePlan_hasQuestion
      examplePlan_shape assessment_def plannedReplies_def Let_def)




text \<open>
  C8 (as stated, refuted). An assessment whose metrics lie outside the unit interval
  but whose action code is NEXT_QUESTION is applied like any other: the interview goes
  on. And during a follow-up the action code of the assessment is not read: the code 7
  resumes the plan.
\<close>

theorem unchecked_assessment_counterexample:
  "\<not> accuracy (mo_metrics wrongMetrics) \<le> 1 \<and> \<not> 0 \<le> relevance (mo_metrics wrongMetrics) \<and>
   interviewState
     (handleSubmitAnswer exampleSession exampleAnswer (MonitorReturns wrongMetrics) plannedReplies)
     = IN_PROGRESS \<and>
   actionCode (assessment 7) \<notin> {1, 2, 3, 4, 5} \<and>
   interviewState
     (handleSubmitAnswer exampleDigression exampleAnswer (MonitorReturns (assessment 7))
        plannedReplies) = IN_PROGRESS"
proof -
  have q: "hasQuestion (interviewPlan exampleSession) (currentTopicIndex exampleSession)
     (currentQuestionIndex exampleSession)"
    by (simp add: exampleSession_fields examplePlan_hasQuestion)
  have r: "askQuestion_resolve (Some examplePlan) 0 (Suc 0) NEXT_QUESTION False =
      \<lparr>plannedTopicName = name (planTopics (Some examplePlan) ! 0),
       plannedQuestionText = questions (planTopics (Some examplePlan) ! 0) ! Suc 0,
       effectiveActionCode = NEXT_QUESTION, endInterview = False,
       nextStateTopicIndex = 0, nextStateQuestionIndex = Suc 0\<rparr>"
    by (simp add: resolve_open_position examplePlan_hasQuestion)
  have "handleSubmitAnswer exampleSession exampleAnswer (MonitorReturns wrongMetrics) plannedReplies =
        askQuestion exampleSession (logged exampleSession wrongMetrics) 0 1 NEXT_QUESTION False
          plannedReplies 0"
    by (simp add: submit_planned [OF exampleAnswer_given _ _ _ q] exampleSession_fields
        wrongMetrics_def assessment_def)
  also have "\<dots> = plannedOutcome (askQuestion_resolve (Some examplePlan) 0 1 NEXT_QUESTION False)
      (logged exampleSession wrongMetrics)"
    by (simp add: askQuestion_planned_reply [of plannedReplies 0 "''planned''" "''Next, please.''"]
        plannedReplies_def exampleSession_fields)
  finally have one: "interviewState
     (handleSubmitAnswer exampleSession exampleAnswer (MonitorReturns wrongMetrics) plannedReplies)
     = IN_PROGRESS"
    by (simp add: r plannedOutcome_def logged_def exampleSession_fields)
  let ?s2 = "(logged exampleDigression (assessment 7))\<lparr>isFollowUpActive := False,
      currentFollowUpQuestionText := None, pausedState := None\<rparr>"
  have "handleSubmitAnswer exampleDigression exampleAnswer (MonitorReturns (assessment 7))
        plannedReplies = askQuestion exampleDigression ?s2 0 1 NEXT_QUESTION False plannedReplies 0"
    by (simp add: submit_follow_up [OF exampleAnswer_given _ _ _ exampleDigression_fields(5)]
        exampleDigression_fields examplePlan_hasQuestion)
  also have "\<dots> = plannedOutcome (askQuestion_resolve (Some examplePlan) 0 1 NEXT_QUESTION False) ?s2"
    by (simp add: askQuestion_planned_reply [of plannedReplies 0 "''planned''" "''Next, please.''"]
        plannedReplies_def exampleDigression_fields)
  finally have two: "interviewState
     (handleSubmitAnswer exampleDigression exampleAnswer (MonitorReturns (assessment 7))
        plannedReplies) = IN_PROGRESS"
    by (simp add: r plannedOutcome_def logged_def exampleDigression_fields)
  from one two show ?thesis
    by (simp add: wrongMetrics_def assessment_def)
qed

text \<open>
  C8 (amended). For the answer to a planned question (no follow-up is active), every
  assessment whose action code is outside \<open>{1, 2, 3, 4, 5}\<close> makes
  \<open>handleSubmitAnswer\<close> force END_INTERVIEW, and the session is ENDED whatever the
  interviewer replies. The metrics are not inspected.
\<close>

theorem invalid_code_ends_planned_turn:
  assumes "answerGiven a" and "\<not> isLoading s" and "interviewState s = IN_PROGRESS"
    and "\<not> isFollowUpActive s" and "actionCode m \<notin> {1, 2, 3, 4, 5}"
  shows "interviewState (handleSubmitAnswer s a (MonitorReturns m) llm) = ENDED"
proof (cases "hasQuestion (interviewPlan s) (currentTopicIndex s) (currentQuestionIndex s)")
  case True
  then have "effectiveActionCode
      (askQuestion_resolve (interviewPlan s) (currentTopicIndex s) (currentQuestionIndex s)
         END_INTERVIEW False) = END_INTERVIEW"
    by (simp add: resolve_open_position)
  then have "interviewState (askQuestion s (logged s m) (currentTopicIndex s) (currentQuestionIndex s)
      END_INTERVIEW False llm 0) = ENDED"
    by (rule askQuestion_end_reply)
  then show ?thesis
    using assms(5) by (simp add: submit_planned [OF assms(1-4) True])
next
  case False
  with assms(4) have "answerContext s = None"
    by (simp add: answerContext_def)
  then show ?thesis
    by (simp add: submit_no_question [OF assms(1-3)])
qed

theorem invalid_code_ends_planned_turn_witness:
  "answerGiven exampleAnswer \<and> \<not> isLoading exampleSession \<and>
   interviewState exampleSession = IN_PROGRESS \<and> \<not> isFollowUpActive exampleSession \<and>
   actionCode (assessment 7) \<notin> {1, 2, 3, 4, 5} \<and>
   interviewState
     (handleSubmitAnswer exampleSession exampleAnswer (MonitorReturns (assessment 7))
        followUpReplies) = ENDED"
  using invalid_code_ends_planned_turn
          [of exampleAnswer exampleSession "assessment 7" followUpReplies]
  by (simp add: exampleAnswer_given exampleSession_fields assessment_def)

text \<open>
  C10. The entry appended to the log is the monitor's output as returned, tagged with
  the kind of turn: its action code is the requested one, whatever
  \<open>handleSubmitAnswer\<close> and \<open>askQuestion\<close> make of it afterwards (escalation at
  the attempt limit, relabelling of NEXT_TOPIC, END_INTERVIEW for an unknown code).
\<close>

theorem log_keeps_requested_code:
  assumes "answerGiven a" and "\<not> isLoading s" and "interviewState s = IN_PROGRESS"
    and "answerContext s \<noteq> None"
  shows "interviewLog (handleSubmitAnswer s a (MonitorReturns m) llm) =
           interviewLog s @
             [\<lparr>monitor = m, entryType = (if isFollowUpActive s then follow_up else planned)\<rparr>] \<and>
         actionCode (monitor (last (interviewLog (handleSubmitAnswer s a (MonitorReturns m) llm)))) =
           actionCode m"
  using assms by (simp add: handleSubmitAnswer_log)

theorem log_keeps_requested_code_witness:
  "answerGiven exampleAnswer \<and> \<not> isLoading (exampleSession\<lparr>currentQuestionAttempts := 2\<rparr>) \<and>
   interviewState (exampleSession\<lparr>currentQuestionAttempts := 2\<rparr>) = IN_PROGRESS \<and>
   answerContext (exampleSession\<lparr>currentQuestionAttempts := 2\<rparr>) \<noteq> None \<and>
   interviewLog
     (handleSubmitAnswer (exampleSession\<lparr>currentQuestionAttempts := 2\<rparr>) exampleAnswer
        (MonitorReturns (assessment REPEAT_QUESTION)) plannedReplies) =
     [\<lparr>monitor = assessment REPEAT_QUESTION, entryType = planned\<rparr>] \<and>
   actionCode (monitor (last (interviewLog
     (handleSubmitAnswer (exampleSession\<lparr>currentQuestionAttempts := 2\<rparr>) exampleAnswer
        (MonitorReturns (assessment REPEAT_QUESTION)) plannedReplies)))) = REPEAT_QUESTION"
proof -
  let ?s = "exampleSession\<lparr>currentQuestionAttempts := 2\<rparr>"
  have h: "answerGiven exampleAnswer" "\<not> isLoading ?s" "interviewState ?s = IN_PROGRESS"
    "answerContext ?s \<noteq> None"
    by (simp_all add: exampleAnswer_given exampleSession_fields answerContext_def
        examplePlan_hasQuestion)
  show ?thesis
    using log_keeps_requested_code [OF h, of "assessment REPEAT_QUESTION" plannedReplies] h
    by (simp add: exampleSession_fields assessment_def)
qed

text \<open>
  C5. While a follow-up is active, \<open>handleSubmitAnswer\<close> hands the attempt counter
  on unchanged whatever the monitor returns for the digression answer (also
  REPEAT_QUESTION or CLARIFY_QUESTION): the session it passes to \<open>askQuestion\<close> has
  the counter of the session it started from. After the whole callback the counter still
  has that value, unless the resumed flow has asked a new planned question: then no
  follow-up is active, the position is later than the paused one, and the counter is the
  0 of that new position.
\<close>

theorem follow_up_answer_keeps_attempts:
  assumes "isFollowUpActive s" and "pausedState s = Some p"
  shows "currentQuestionAttempts (fst (submitCall s m)) = currentQuestionAttempts s \<and>
         (currentQuestionAttempts (handleSubmitAnswer s a mon llm) = currentQuestionAttempts s \<or>
          (currentQuestionAttempts (handleSubmitAnswer s a mon llm) = 0 \<and>
           \<not> isFollowUpActive (handleSubmitAnswer s a mon llm) \<and>
           (topicIndex p < currentTopicIndex (handleSubmitAnswer s a mon llm) \<or>
            (topicIndex p = currentTopicIndex (handleSubmitAnswer s a mon llm) \<and>
             questionIndex p < currentQuestionIndex (handleSubmitAnswer s a mon llm)))))"
proof
  obtain s2 t q code where call: "submitCall s m = (s2, t, q, code)"
    by (cases "submitCall s m") auto
  from submitCall_follow_up(1) [OF assms call] call
  show "currentQuestionAttempts (fst (submitCall s m)) = currentQuestionAttempts s"
    by simp
next
  let ?s' = "handleSubmitAnswer s a mon llm"
  show "currentQuestionAttempts ?s' = currentQuestionAttempts s \<or>
          (currentQuestionAttempts ?s' = 0 \<and> \<not> isFollowUpActive ?s' \<and>
           (topicIndex p < currentTopicIndex ?s' \<or>
            (topicIndex p = currentTopicIndex ?s' \<and> questionIndex p < currentQuestionIndex ?s')))"
  proof (rule handleSubmitAnswer_cases [where s = s and a = a and mon = mon and llm = llm], goal_cases)
    case 1
    then show ?case by simp
  next
    case 2
    then show ?case by simp
  next
    case (3 m' s2 t q code)
    note pos = submitCall_follow_up [OF assms 3(6)]
    from askQuestion_attempts_position [of s s2 t q code False llm 0]
    show ?case
      unfolding 3(7) using pos(1,2) by (auto simp: notBefore_def)
  qed
qed

theorem follow_up_answer_keeps_attempts_witness:
  "isFollowUpActive (exampleDigression\<lparr>currentQuestionAttempts := 1\<rparr>) \<and>
   pausedState (exampleDigression\<lparr>currentQuestionAttempts := 1\<rparr>) =
     Some \<lparr>topicIndex = 0, questionIndex = 0, attempts = 0, resumingActionCode = NEXT_QUESTION\<rparr> \<and>
   currentQuestionAttempts
     (fst (submitCall (exampleDigression\<lparr>currentQuestionAttempts := 1\<rparr>)
             (assessment REPEAT_QUESTION))) = 1 \<and>
   (currentQuestionAttempts
      (handleSubmitAnswer (exampleDigression\<lparr>currentQuestionAttempts := 1\<rparr>) exampleAnswer
         (MonitorReturns (assessment REPEAT_QUESTION)) followUpReplies) = 1 \<or>
    (currentQuestionAttempts
       (handleSubmitAnswer (exampleDigression\<lparr>currentQuestionAttempts := 1\<rparr>) exampleAnswer
          (MonitorReturns (assessment REPEAT_QUESTION)) followUpReplies) = 0 \<and>
     \<not> isFollowUpActive
        (handleSubmitAnswer (exampleDigression\<lparr>currentQuestionAttempts := 1\<rparr>) exampleAnswer
           (MonitorReturns (assessment REPEAT_QUESTION)) followUpReplies)))"
  using follow_up_answer_keeps_attempts
          [OF exampleDigression_retry_fields, of "assessment REPEAT_QUESTION" exampleAnswer
              "MonitorReturns (assessment REPEAT_QUESTION)" followUpReplies]
        exampleDigression_retry_fields
  by auto

text \<open>
  C4, at a run that breaks it. The claim bounds the follow-up streak by 3 in every
  reachable session, and the code means to: \<open>askQuestion\<close> enters a follow-up only
  below the limit, and \<open>handleSubmitAnswer\<close> skips a submission while
  \<open>isLoading\<close> is set. But the limit is tested on the streak of the closure, the
  streak is raised by one from whatever it is, and at the limit the forced call is not
  awaited, so that \<open>finally\<close> clears \<open>isLoading\<close> while that call is in
  flight. In \<open>overlappingRun\<close> the interview is started with a plan of three topics,
  the interviewer digresses three times and its fourth follow-up is ignored; while the
  forced call is in flight the candidate answers. From then on answers overlap: two are
  submitted in renders whose streak is 0, one in a render whose streak is 1 and one in a
  render whose streak is 2. Each of the four is replied to with a follow-up, each
  callback finds the streak of its own render below the limit and adds one to the
  streak of the session, which ends at 4.
\<close>

theorem overlapping_answers_exceed_streak:
  "\<not> isLoading (fst (run (initialState, []) (forcedRun threeTopicPlan))) \<and>
   length (snd (run (initialState, []) (forcedRun threeTopicPlan))) = 1 \<and>
   currentFollowUpStreak (fst (run (initialState, []) overlappingRun)) = 4 \<and>
   MAX_FOLLOW_UP_STREAK < currentFollowUpStreak (fst (run (initialState, []) overlappingRun)) \<and>
   interviewState (fst (run (initialState, []) overlappingRun)) = IN_PROGRESS"
  by (simp add: overlappingRun_def run_defs)

text \<open>
  C4, in serial runs. In every session reached from the initial one by a serial run
  (each start, effect and submission happens while no call is in flight) the follow-up
  streak is at most 3. And when \<open>askQuestion\<close> runs in a closure whose streak has
  reached 3 and the interviewer's output is classified as a follow-up, no follow-up is
  entered: the call continues with NEXT_QUESTION at the following question of the topic
  if there is one, else with NEXT_TOPIC at the following topic if there is one, else
  the interview is ENDED; and in the session it returns no follow-up is active, nothing
  is paused and the streak is 0. At the reply itself the callback clears the follow-up
  state and the streak, sets the forced position, leaves the forced call in flight and
  clears \<open>isLoading\<close>.
\<close>

theorem serial_follow_up_streak_bounded:
  "(serial (initialState, []) es \<longrightarrow>
      currentFollowUpStreak (fst (run (initialState, []) es)) \<le> MAX_FOLLOW_UP_STREAK) \<and>
   (currentFollowUpStreak c = MAX_FOLLOW_UP_STREAK \<and>
    callInterviewerLlm (effectiveActionCode (askQuestion_resolve (interviewPlan c) t q code fe))
      (llm i) = Some out \<and>
    out_type out = follow_up \<longrightarrow>
      askQuestion c s t q code fe llm i =
        (if hasQuestion (interviewPlan c) t (q + 1) then
           askQuestion c ((overridden s)\<lparr>currentTopicIndex := t, currentQuestionIndex := q + 1\<rparr>)
             t (q + 1) NEXT_QUESTION False llm (Suc i)
         else if hasTopic (interviewPlan c) (t + 1) then
           askQuestion c ((overridden s)\<lparr>currentTopicIndex := t + 1, currentQuestionIndex := 0\<rparr>)
             (t + 1) 0 NEXT_TOPIC False llm (Suc i)
         else (overridden s)\<lparr>interviewState := ENDED, isLoading := False\<rparr>) \<and>
      \<not> isFollowUpActive (askQuestion c s t q code fe llm i) \<and>
      pausedState (askQuestion c s t q code fe llm i) = None \<and>
      currentFollowUpStreak (askQuestion c s t q code fe llm i) = 0 \<and>
      askQuestion_returns c s t q code fe (llm i) =
        (if hasQuestion (interviewPlan c) t (q + 1) then
           ((overridden s)\<lparr>currentTopicIndex := t, currentQuestionIndex := q + 1,
                           isLoading := False\<rparr>,
            [InterviewerCall c t (q + 1) NEXT_QUESTION False])
         else if hasTopic (interviewPlan c) (t + 1) then
           ((overridden s)\<lparr>currentTopicIndex := t + 1, currentQuestionIndex := 0,
                           isLoading := False\<rparr>,
            [InterviewerCall c (t + 1) 0 NEXT_TOPIC False])
         else ((overridden s)\<lparr>interviewState := ENDED\<rparr>, [ClosingCall])))"
proof (intro conjI impI)
  assume "serial (initialState, []) es"
  then show "currentFollowUpStreak (fst (run (initialState, []) es)) \<le> MAX_FOLLOW_UP_STREAK"
    by (rule serial_streak) (simp add: initialState_streak)
next
  assume h: "currentFollowUpStreak c = MAX_FOLLOW_UP_STREAK \<and>
    callInterviewerLlm (effectiveActionCode (askQuestion_resolve (interviewPlan c) t q code fe))
      (llm i) = Some out \<and>
    out_type out = follow_up"
  then have lim: "\<not> currentFollowUpStreak c < MAX_FOLLOW_UP_STREAK"
    and out: "callInterviewerLlm
        (effectiveActionCode (askQuestion_resolve (interviewPlan c) t q code fe)) (llm i) = Some out"
    and fu: "out_type out = follow_up"
    by simp_all
  show "askQuestion c s t q code fe llm i =
        (if hasQuestion (interviewPlan c) t (q + 1) then
           askQuestion c ((overridden s)\<lparr>currentTopicIndex := t, currentQuestionIndex := q + 1\<rparr>)
             t (q + 1) NEXT_QUESTION False llm (Suc i)
         else if hasTopic (interviewPlan c) (t + 1) then
           askQuestion c ((overridden s)\<lparr>currentTopicIndex := t + 1, currentQuestionIndex := 0\<rparr>)
             (t + 1) 0 NEXT_TOPIC False llm (Suc i)
         else (overridden s)\<lparr>interviewState := ENDED, isLoading := False\<rparr>)"
    by (rule askQuestion_forced [where llm = llm and i = i, OF lim out fu])
  from askQuestion_forced_cleared [where llm = llm and i = i, OF lim out fu]
  show "\<not> isFollowUpActive (askQuestion c s t q code fe llm i)"
    and "pausedState (askQuestion c s t q code fe llm i) = None"
    and "currentFollowUpStreak (askQuestion c s t q code fe llm i) = 0"
    by simp_all
  show "askQuestion_returns c s t q code fe (llm i) =
        (if hasQuestion (interviewPlan c) t (q + 1) then
           ((overridden s)\<lparr>currentTopicIndex := t, currentQuestionIndex := q + 1,
                           isLoading := False\<rparr>,
            [InterviewerCall c t (q + 1) NEXT_QUESTION False])
         else if hasTopic (interviewPlan c) (t + 1) then
           ((overridden s)\<lparr>currentTopicIndex := t + 1, currentQuestionIndex := 0,
                           isLoading := False\<rparr>,
            [InterviewerCall c (t + 1) 0 NEXT_TOPIC False])
         else ((overridden s)\<lparr>interviewState := ENDED\<rparr>, [ClosingCall]))"
    by (rule askQuestion_returns_forced [OF lim out fu])
qed

theorem serial_follow_up_streak_bounded_witness:
  "serial (initialState, []) (serialRun examplePlan) \<and>
   currentFollowUpStreak (fst (run (initialState, []) (serialRun examplePlan))) \<le> MAX_FOLLOW_UP_STREAK \<and>
   currentFollowUpStreak exampleStreak = MAX_FOLLOW_UP_STREAK \<and>
   callInterviewerLlm
     (effectiveActionCode (askQuestion_resolve (interviewPlan exampleStreak) 0 0 NEXT_QUESTION False))
     (oneFollowUp 0) = Some \<lparr>out_type = follow_up, out_text = ''Can you say more?''\<rparr> \<and>
   askQuestion exampleStreak exampleStreak 0 0 NEXT_QUESTION False oneFollowUp 0 =
     askQuestion exampleStreak
       ((overridden exampleStreak)\<lparr>currentTopicIndex := 0, currentQuestionIndex := 0 + 1\<rparr>)
       0 (0 + 1) NEXT_QUESTION False oneFollowUp (Suc 0) \<and>
   \<not> isFollowUpActive (askQuestion exampleStreak exampleStreak 0 0 NEXT_QUESTION False oneFollowUp 0) \<and>
   pausedState (askQuestion exampleStreak exampleStreak 0 0 NEXT_QUESTION False oneFollowUp 0) = None \<and>
   currentFollowUpStreak
     (askQuestion exampleStreak exampleStreak 0 0 NEXT_QUESTION False oneFollowUp 0) = 0 \<and>
   askQuestion_returns exampleStreak exampleStreak 0 0 NEXT_QUESTION False (oneFollowUp 0) =
     ((overridden exampleStreak)\<lparr>currentTopicIndex := 0, currentQuestionIndex := 0 + 1,
                                  isLoading := False\<rparr>,
      [InterviewerCall exampleStreak 0 (0 + 1) NEXT_QUESTION False])"
proof -
  have ser: "serial (initialState, []) (serialRun examplePlan)"
    by (simp add: run_defs)
  note inst = serial_follow_up_streak_bounded
          [of "serialRun examplePlan" exampleStreak 0 0 NEXT_QUESTION False oneFollowUp 0
              "\<lparr>out_type = follow_up, out_text = ''Can you say more?''\<rparr>" exampleStreak]
  from inst ser
  have one: "currentFollowUpStreak (fst (run (initialState, []) (serialRun examplePlan))) \<le>
      MAX_FOLLOW_UP_STREAK"
    by blast
  from inst show ?thesis
    using ser one
    by (auto simp: exampleStreak_fields example_follow_up_out examplePlan_hasQuestion)
qed

text \<open>
  C7, at a run that breaks it. The claim gives every newly entered position a retry
  counter of 0, and the planned branch of \<open>askQuestion\<close> does reset the counter
  with the position. The branch that ignores a follow-up at the streak limit sets the
  forced position without the counter and leaves the reset to the forced call, which it
  does not await. In \<open>forcedRun\<close> the first answer is assessed with
  REPEAT_QUESTION, which counts one attempt at the first question of the first topic,
  and the interviewer digresses three times; the position stays there. Its fourth
  follow-up is ignored: the callback sets the position to the third question of the
  second topic and leaves the forced call in flight. The session now waits at the new
  position, not loading, with the counter still at 1; it accepts an answer there, and a
  first REPEAT_QUESTION for that answer counts as the second attempt.
\<close>

theorem forced_position_keeps_attempts:
  "currentTopicIndex (fst (run (initialState, []) (limitRun examplePlan))) = 0 \<and>
   currentQuestionIndex (fst (run (initialState, []) (limitRun examplePlan))) = 0 \<and>
   awaiting (fst (run (initialState, []) (forcedRun examplePlan))) 1 2 1 \<and>
   currentQuestionAttempts
     (fst (run (initialState, [])
        (forcedRun examplePlan @
         [SubmitAnswer exampleAnswer, Returns 1 (assessed REPEAT_QUESTION)]))) = 2"
  by (simp add: run_defs awaiting_def)

text \<open>
  C7, at the reply to a planned question and in turns completed one after the other.
  When the interviewer carries out the planned action and the effective action is
  NEXT_QUESTION or NEXT_TOPIC, \<open>askQuestion\<close> sets the position to the question it
  asked and the attempt counter to 0, both at that reply. So for every turn that is
  completed before the next event, when the session is IN_PROGRESS afterwards at
  another position than before, its attempt counter is 0. When a follow-up is ignored
  at the streak limit, the callback sets the forced position at once and leaves the
  counter as it is; the counter is reset only by the reply to the forced call, which is
  then in flight while the session is not loading.
\<close>

theorem planned_reply_resets_attempts:
  "(llm i = InterviewerReturns ty tx \<and> ty \<noteq> ''follow-up'' \<and>
    (effectiveActionCode (askQuestion_resolve (interviewPlan c) t q code fe) = NEXT_QUESTION \<or>
     effectiveActionCode (askQuestion_resolve (interviewPlan c) t q code fe) = NEXT_TOPIC) \<longrightarrow>
      currentQuestionAttempts (askQuestion c s t q code fe llm i) = 0 \<and>
      currentTopicIndex (askQuestion c s t q code fe llm i) =
        nextStateTopicIndex (askQuestion_resolve (interviewPlan c) t q code fe) \<and>
      currentQuestionIndex (askQuestion c s t q code fe llm i) =
        nextStateQuestionIndex (askQuestion_resolve (interviewPlan c) t q code fe) \<and>
      snd (askQuestion_returns c s t q code fe (llm i)) = [] \<and>
      currentQuestionAttempts (fst (askQuestion_returns c s t q code fe (llm i))) = 0 \<and>
      currentTopicIndex (fst (askQuestion_returns c s t q code fe (llm i))) =
        nextStateTopicIndex (askQuestion_resolve (interviewPlan c) t q code fe) \<and>
      currentQuestionIndex (fst (askQuestion_returns c s t q code fe (llm i))) =
        nextStateQuestionIndex (askQuestion_resolve (interviewPlan c) t q code fe)) \<and>
   (interviewState (takeTurn s' e) = IN_PROGRESS \<and>
    (currentTopicIndex (takeTurn s' e) \<noteq> currentTopicIndex s' \<or>
     currentQuestionIndex (takeTurn s' e) \<noteq> currentQuestionIndex s') \<longrightarrow>
      currentQuestionAttempts (takeTurn s' e) = 0) \<and>
   (\<not> currentFollowUpStreak cf < MAX_FOLLOW_UP_STREAK \<and>
    callInterviewerLlm
      (effectiveActionCode (askQuestion_resolve (interviewPlan cf) tf qf codef fef)) replyf =
      Some outf \<and>
    out_type outf = follow_up \<and>
    (hasQuestion (interviewPlan cf) tf (qf + 1) \<or> hasTopic (interviewPlan cf) (tf + 1)) \<longrightarrow>
      currentQuestionAttempts (fst (askQuestion_returns cf sf tf qf codef fef replyf)) =
        currentQuestionAttempts sf \<and>
      interviewState (fst (askQuestion_returns cf sf tf qf codef fef replyf)) = interviewState sf \<and>
      \<not> isLoading (fst (askQuestion_returns cf sf tf qf codef fef replyf)) \<and>
      currentTopicIndex (fst (askQuestion_returns cf sf tf qf codef fef replyf)) =
        (if hasQuestion (interviewPlan cf) tf (qf + 1) then tf else tf + 1) \<and>
      currentQuestionIndex (fst (askQuestion_returns cf sf tf qf codef fef replyf)) =
        (if hasQuestion (interviewPlan cf) tf (qf + 1) then qf + 1 else 0) \<and>
      snd (askQuestion_returns cf sf tf qf codef fef replyf) =
        (if hasQuestion (interviewPlan cf) tf (qf + 1)
         then [InterviewerCall cf tf (qf + 1) NEXT_QUESTION False]
         else [InterviewerCall cf (tf + 1) 0 NEXT_TOPIC False]))"
proof (intro conjI impI)
  let ?r = "askQuestion_resolve (interviewPlan c) t q code fe"
  assume h: "llm i = InterviewerReturns ty tx \<and> ty \<noteq> ''follow-up'' \<and>
    (effectiveActionCode ?r = NEXT_QUESTION \<or> effectiveActionCode ?r = NEXT_TOPIC)"
  then have eq: "askQuestion c s t q code fe llm i = plannedOutcome ?r s"
    by (intro askQuestion_planned_reply [of llm i ty tx]) simp_all
  from h have eq2: "askQuestion_returns c s t q code fe (llm i) = (plannedOutcome ?r s, [])"
    by (intro askQuestion_returns_planned_reply [of "llm i" ty tx]) simp_all
  from h have ne: "\<not> (endInterview ?r \<or> effectiveActionCode ?r = END_INTERVIEW)"
    using resolve_endInterview [of "interviewPlan c" t q code fe] by auto
  from h show "currentQuestionAttempts (askQuestion c s t q code fe llm i) = 0"
    by (simp add: eq plannedOutcome_fields)
  from ne show "currentTopicIndex (askQuestion c s t q code fe llm i) = nextStateTopicIndex ?r"
    by (simp add: eq plannedOutcome_fields)
  from ne show "currentQuestionIndex (askQuestion c s t q code fe llm i) = nextStateQuestionIndex ?r"
    by (simp add: eq plannedOutcome_fields)
  show "snd (askQuestion_returns c s t q code fe (llm i)) = []"
    by (simp add: eq2)
  from h have "currentQuestionAttempts (plannedOutcome ?r s) = 0"
    by (auto simp: plannedOutcome_fields)
  then show "currentQuestionAttempts (fst (askQuestion_returns c s t q code fe (llm i))) = 0"
    by (simp only: eq2 fst_conv)
  from ne show "currentTopicIndex (fst (askQuestion_returns c s t q code fe (llm i))) =
      nextStateTopicIndex ?r"
    by (simp add: eq2 plannedOutcome_fields)
  from ne show "currentQuestionIndex (fst (askQuestion_returns c s t q code fe (llm i))) =
      nextStateQuestionIndex ?r"
    by (simp add: eq2 plannedOutcome_fields)
next
  assume h: "interviewState (takeTurn s' e) = IN_PROGRESS \<and>
    (currentTopicIndex (takeTurn s' e) \<noteq> currentTopicIndex s' \<or>
     currentQuestionIndex (takeTurn s' e) \<noteq> currentQuestionIndex s')"
  show "currentQuestionAttempts (takeTurn s' e) = 0"
  proof (cases e)
    case (StartTurn d reply)
    with h handleStartInterview_new_position [of s' d reply] show ?thesis by auto
  next
    case (OpeningTurn llm')
    with h planningCompleteEffect_attempts [of s' llm'] show ?thesis by auto
  next
    case (AnswerTurn a mon llm')
    with h show ?thesis
      by (simp add: handleSubmitAnswer_new_position)
  qed
next
  assume h: "\<not> currentFollowUpStreak cf < MAX_FOLLOW_UP_STREAK \<and>
    callInterviewerLlm
      (effectiveActionCode (askQuestion_resolve (interviewPlan cf) tf qf codef fef)) replyf =
      Some outf \<and>
    out_type outf = follow_up \<and>
    (hasQuestion (interviewPlan cf) tf (qf + 1) \<or> hasTopic (interviewPlan cf) (tf + 1))"
  then have lim: "\<not> currentFollowUpStreak cf < MAX_FOLLOW_UP_STREAK"
    and out: "callInterviewerLlm
      (effectiveActionCode (askQuestion_resolve (interviewPlan cf) tf qf codef fef)) replyf =
      Some outf"
    and fu: "out_type outf = follow_up"
    and nxt: "hasQuestion (interviewPlan cf) tf (qf + 1) \<or> hasTopic (interviewPlan cf) (tf + 1)"
    by simp_all
  note f = askQuestion_returns_forced_fields [where s = sf, OF lim out fu nxt]
  from f(1) show "currentQuestionAttempts (fst (askQuestion_returns cf sf tf qf codef fef replyf)) =
        currentQuestionAttempts sf" .
  from f(2) show "interviewState (fst (askQuestion_returns cf sf tf qf codef fef replyf)) =
        interviewState sf" .
  from f(3) show "\<not> isLoading (fst (askQuestion_returns cf sf tf qf codef fef replyf))" .
  from f(4) show "currentTopicIndex (fst (askQuestion_returns cf sf tf qf codef fef replyf)) =
        (if hasQuestion (interviewPlan cf) tf (qf + 1) then tf else tf + 1)" .
  from f(5) show "currentQuestionIndex (fst (askQuestion_returns cf sf tf qf codef fef replyf)) =
        (if hasQuestion (interviewPlan cf) tf (qf + 1) then qf + 1 else 0)" .
  from f(6) show "snd (askQuestion_returns cf sf tf qf codef fef replyf) =
        (if hasQuestion (interviewPlan cf) tf (qf + 1)
         then [InterviewerCall cf tf (qf + 1) NEXT_QUESTION False]
         else [InterviewerCall cf (tf + 1) 0 NEXT_TOPIC False])" .
qed

theorem planned_reply_resets_attempts_witness:
  "plannedReplies 0 = InterviewerReturns ''planned'' ''Next, please.'' \<and>
   ''planned'' \<noteq> ''follow-up'' \<and>
   effectiveActionCode
     (askQuestion_resolve (interviewPlan exampleSession) 0 (Suc 0) NEXT_QUESTION False) = NEXT_QUESTION \<and>
   currentQuestionAttempts
     (askQuestion exampleSession (exampleSession\<lparr>currentQuestionAttempts := 2\<rparr>) 0 (Suc 0)
        NEXT_QUESTION False plannedReplies 0) = 0 \<and>
   currentQuestionAttempts
     (fst (askQuestion_returns exampleSession (exampleSession\<lparr>currentQuestionAttempts := 2\<rparr>)
             0 (Suc 0) NEXT_QUESTION False (plannedReplies 0))) = 0 \<and>
   interviewState
     (takeTurn (exampleSession\<lparr>currentQuestionAttempts := 2\<rparr>)
        (AnswerTurn exampleAnswer (MonitorReturns (assessment NEXT_QUESTION)) plannedReplies))
     = IN_PROGRESS \<and>
   currentQuestionIndex
     (takeTurn (exampleSession\<lparr>currentQuestionAttempts := 2\<rparr>)
        (AnswerTurn exampleAnswer (MonitorReturns (assessment NEXT_QUESTION)) plannedReplies))
     \<noteq> currentQuestionIndex (exampleSession\<lparr>currentQuestionAttempts := 2\<rparr>) \<and>
   currentQuestionAttempts
     (takeTurn (exampleSession\<lparr>currentQuestionAttempts := 2\<rparr>)
        (AnswerTurn exampleAnswer (MonitorReturns (assessment NEXT_QUESTION)) plannedReplies)) = 0 \<and>
   \<not> currentFollowUpStreak exampleStreak < MAX_FOLLOW_UP_STREAK \<and>
   callInterviewerLlm
     (effectiveActionCode (askQuestion_resolve (interviewPlan exampleStreak) 0 0 NEXT_QUESTION False))
     (oneFollowUp 0) = Some \<lparr>out_type = follow_up, out_text = ''Can you say more?''\<rparr> \<and>
   hasQuestion (interviewPlan exampleStreak) 0 (0 + 1) \<and>
   currentQuestionAttempts
     (fst (askQuestion_returns exampleStreak (exampleStreak\<lparr>currentQuestionAttempts := 2\<rparr>)
             0 0 NEXT_QUESTION False (oneFollowUp 0))) = 2 \<and>
   currentQuestionIndex
     (fst (askQuestion_returns exampleStreak (exampleStreak\<lparr>currentQuestionAttempts := 2\<rparr>)
             0 0 NEXT_QUESTION False (oneFollowUp 0))) = 1 \<and>
   \<not> isLoading
     (fst (askQuestion_returns exampleStreak (exampleStreak\<lparr>currentQuestionAttempts := 2\<rparr>)
             0 0 NEXT_QUESTION False (oneFollowUp 0)))"
proof -
  let ?s = "exampleSession\<lparr>currentQuestionAttempts := 2\<rparr>"
  let ?e = "AnswerTurn exampleAnswer (MonitorReturns (assessment NEXT_QUESTION)) plannedReplies"
  let ?s2 = "exampleStreak\<lparr>currentQuestionAttempts := 2\<rparr>"
  let ?out = "\<lparr>out_type = follow_up, out_text = ''Can you say more?''\<rparr>"
  have h1: "plannedReplies 0 = InterviewerReturns ''planned'' ''Next, please.''"
    "''planned'' \<noteq> ''follow-up''"
    "effectiveActionCode
       (askQuestion_resolve (interviewPlan exampleSession) 0 (Suc 0) NEXT_QUESTION False) = NEXT_QUESTION"
    by (simp_all add: plannedReplies_def exampleSession_fields example_resolve_second_question)
  have h2: "interviewState (takeTurn ?s ?e) = IN_PROGRESS"
    "currentQuestionIndex (takeTurn ?s ?e) \<noteq> currentQuestionIndex ?s"
    by (simp_all add: example_next_question_step example_resolve_second_question
        plannedOutcome_fields logged_def exampleSession_fields)
  have h3: "\<not> currentFollowUpStreak exampleStreak < MAX_FOLLOW_UP_STREAK"
    "callInterviewerLlm
       (effectiveActionCode (askQuestion_resolve (interviewPlan exampleStreak) 0 0 NEXT_QUESTION False))
       (oneFollowUp 0) = Some ?out"
    "out_type ?out = follow_up"
    "hasQuestion (interviewPlan exampleStreak) 0 (0 + 1)"
    by (simp_all add: exampleStreak_fields example_follow_up_out examplePlan_hasQuestion)
  note inst = planned_reply_resets_attempts
         [where llm = plannedReplies and i = 0 and ty = "''planned''" and tx = "''Next, please.''"
            and c = exampleSession and t = 0 and q = "Suc 0" and code = NEXT_QUESTION and fe = False
            and s = ?s and s' = ?s and e = ?e
            and cf = exampleStreak and sf = ?s2 and tf = 0 and qf = 0 and codef = NEXT_QUESTION
            and fef = False and replyf = "oneFollowUp 0" and outf = ?out]
  from inst h1 have a: "currentQuestionAttempts
     (askQuestion exampleSession ?s 0 (Suc 0) NEXT_QUESTION False plannedReplies 0) = 0"
    "currentQuestionAttempts
     (fst (askQuestion_returns exampleSession ?s 0 (Suc 0) NEXT_QUESTION False (plannedReplies 0))) = 0"
    by blast+
  from inst h2 have b: "currentQuestionAttempts (takeTurn ?s ?e) = 0"
    by blast
  from inst h3 have d: "currentQuestionAttempts
       (fst (askQuestion_returns exampleStreak ?s2 0 0 NEXT_QUESTION False (oneFollowUp 0))) =
       currentQuestionAttempts ?s2"
    "currentQuestionIndex
       (fst (askQuestion_returns exampleStreak ?s2 0 0 NEXT_QUESTION False (oneFollowUp 0))) =
       (if hasQuestion (interviewPlan exampleStreak) 0 (0 + 1) then 0 + 1 else 0)"
    "\<not> isLoading (fst (askQuestion_returns exampleStreak ?s2 0 0 NEXT_QUESTION False (oneFollowUp 0)))"
    by blast+
  from d h3(4) have d': "currentQuestionAttempts
       (fst (askQuestion_returns exampleStreak ?s2 0 0 NEXT_QUESTION False (oneFollowUp 0))) = 2"
    "currentQuestionIndex
       (fst (askQuestion_returns exampleStreak ?s2 0 0 NEXT_QUESTION False (oneFollowUp 0))) = 1"
    by simp_all
  from h1 h2 h3 a b d(3) d' show ?thesis by blast
qed



text \<open>
  C9 (as stated, refuted). The claim equates the length of the log with the number of
  answered turns. In the example session the candidate answers the first question and
  the monitor call is rejected: the turn is answered, the session is ENDED with no call
  in flight, and the log is empty.
\<close>

theorem unassessed_answer_leaves_no_record_counterexample:
  "answeredTurns (exampleSession, []) unassessedRun = 1 \<and>
   length (interviewLog (fst (run (exampleSession, []) unassessedRun))) = 0 \<and>
   interviewState (fst (run (exampleSession, []) unassessedRun)) = ENDED \<and>
   snd (run (exampleSession, []) unassessedRun) = []"
  by (simp add: unassessedRun_def exampleSession_def answered_def run_defs)

text \<open>
  C9 (amended). Within one session (no new start of the interview) the log after a run
  is the log before it followed by one record for each assessment that the monitor
  returned for an answered turn, planned or follow-up, in the order in which the
  assessments returned, and nothing else: nothing for a submission that is not
  accepted as an answer, nothing twice when a question is repeated, and the entries
  already there are neither changed nor removed. An answered turn gets its record when
  its assessment returns and none when the assessment fails: the answered turns of the
  run, with those that awaited their assessment before it, are as many as the records
  of the run, the failed assessments of the run and the turns that still await their
  assessment after it.
\<close>

theorem log_records_assessed_turns:
  assumes "\<forall>e\<in>set es. \<not> isStartInterview e"
  shows "interviewLog (fst (run sys es)) = interviewLog (fst sys) @ recordsOf sys es \<and>
         length (interviewLog (fst (run sys es))) =
           length (interviewLog (fst sys)) + length (recordsOf sys es) \<and>
         answeredTurns sys es + awaitingAssessment (snd sys) =
           length (recordsOf sys es) + failedAssessments sys es +
           awaitingAssessment (snd (run sys es)) \<and>
         length (recordsOf sys es) \<le> answeredTurns sys es + awaitingAssessment (snd sys)"
  using run_log [OF assms, of sys] by simp

theorem log_records_assessed_turns_witness:
  "interviewLog (fst (run (exampleSession, []) assessedRun)) =
     interviewLog (fst (exampleSession, [])) @ recordsOf (exampleSession, []) assessedRun \<and>
   recordsOf (exampleSession, []) assessedRun =
     [\<lparr>monitor = assessment REPEAT_QUESTION, entryType = planned\<rparr>] \<and>
   answeredTurns (exampleSession, []) assessedRun = 2 \<and>
   failedAssessments (exampleSession, []) assessedRun = 1 \<and>
   awaitingAssessment (snd (run (exampleSession, []) assessedRun)) = 0 \<and>
   answeredTurns (exampleSession, []) assessedRun + awaitingAssessment (snd (exampleSession, [])) =
     length (recordsOf (exampleSession, []) assessedRun) +
     failedAssessments (exampleSession, []) assessedRun +
     awaitingAssessment (snd (run (exampleSession, []) assessedRun))"
proof -
  have h: "\<forall>e\<in>set assessedRun. \<not> isStartInterview e"
    by (simp add: assessedRun_def unassessedRun_def answerEvents_def)
  have ev: "recordsOf (exampleSession, []) assessedRun =
       [\<lparr>monitor = assessment REPEAT_QUESTION, entryType = planned\<rparr>]"
    "answeredTurns (exampleSession, []) assessedRun = 2"
    "failedAssessments (exampleSession, []) assessedRun = 1"
    "awaitingAssessment (snd (run (exampleSession, []) assessedRun)) = 0"
    by (simp_all add: assessedRun_def unassessedRun_def exampleSession_def answered_def
        monitorCallAt_def awaitingAssessment_def run_defs)
  from log_records_assessed_turns [OF h, of "(exampleSession, [])"] ev show ?thesis
    by simp
qed

end
